theory Spec2Isabelle
  imports Complex_Main "HOL-Library.Sublist"
begin

section \<open>Map stage: per-chunk summarization with retry (chunkSummarizer.ts)\<close>

text \<open>
  A value thrown by the generative service is either an \<open>Error\<close> object (with its
  message) or some other value (with its \<open>String(...)\<close> rendering).  The catch block
  of \<open>summarizeChunkWithRetry\<close> keeps the former and wraps the latter:
  \<^verbatim>\<open>lastError = error instanceof Error ? error : new Error(String(error))\<close>.
\<close>

datatype thrown = ErrorObj string | NonError string

fun toError :: "thrown \<Rightarrow> thrown" where
  "toError (ErrorObj m) = ErrorObj m"
| "toError (NonError v) = ErrorObj v"

text \<open>Decimal rendering of a number inside a template string.\<close>

fun digit_char :: "nat \<Rightarrow> char" where
  "digit_char n = char_of (48 + n)"

function show_nat :: "nat \<Rightarrow> string" where
  "show_nat n = (if n < 10 then [digit_char n] else show_nat (n div 10) @ [digit_char (n mod 10)])"
  by pat_completeness auto
termination
  by (relation "measure id") auto

declare show_nat.simps [simp del]

text \<open>
  The generative service is a collaborator.  \<open>gen i k p\<close> is the outcome of the
  \<open>k\<close>-th call (counted from 0) of \<open>generateContent\<close> that the task of chunk
  number \<open>i\<close> issues, with prompt \<open>p\<close>: \<open>Inr\<close> the generated text, \<open>Inl\<close> the
  value thrown.
\<close>

type_synonym backend = "nat \<Rightarrow> nat \<Rightarrow> string \<Rightarrow> thrown + string"

definition nl :: char where
  "nl = CHR 0x0A"

definition dq :: char where
  "dq = CHR 0x22"

definition createChunkSummaryPrompt :: "string \<Rightarrow> string" where
  "createChunkSummaryPrompt chunk =
     ''You are summarizing a section of a YouTube video transcript. Create a comprehensive and detailed summary that captures all important information from this section of the transcript.'' @ [nl]
   @ ''    '' @ [nl]
   @ ''Focus on:'' @ [nl]
   @ ''- The main topics and themes in detail'' @ [nl]
   @ ''- Key facts, information, and concepts presented'' @ [nl]
   @ ''- Important points, arguments, examples, and explanations'' @ [nl]
   @ ''- Retain all quantitative information (statistics, dates, figures)'' @ [nl]
   @ ''- Preserve technical terms, proper nouns, and specialized vocabulary'' @ [nl]
   @ ''- Maintain the logical flow and structure of the original content'' @ [nl]
   @ ''- Include important transitions and relationships between ideas'' @ [nl]
   @ ''- Capture both explicit statements and implicit meanings'' @ [nl]
   @ [nl]
   @ ''Do not:'' @ [nl]
   @ ''- Include your own opinions or evaluations'' @ [nl]
   @ ''- Mention that this is a summary or a transcript'' @ [nl]
   @ ''- Refer to '' @ [dq] @ ''the speaker'' @ [dq] @ '' or '' @ [dq] @ ''the video'' @ [dq]
   @ '' - just state the information directly'' @ [nl]
   @ ''- Omit significant details even if they seem minor'' @ [nl]
   @ [nl]
   @ ''Format your response as detailed paragraphs that fully capture the content. Use bullet points only for lists that appear in the original content.'' @ [nl]
   @ [nl]
   @ ''TRANSCRIPT SECTION:'' @ [nl]
   @ chunk @ [nl]
   @ [nl]
   @ ''DETAILED SECTION SUMMARY:''"

text \<open>
  What one run of \<open>summarizeChunkWithRetry\<close> does: its outcome (the summary returned
  or the value thrown), the number of \<open>generateContent\<close> calls it made, and the
  back-off delays (in milliseconds) it slept, in order.
\<close>

record retry_run =
  outcome :: "thrown + string"
  attempts :: nat
  backoffs :: "nat list"

text \<open>
  The \<open>while (attemptCount < this._maxRetries)\<close> loop.  \<open>attemptCount\<close> is
  incremented before the call, so the call made when the counter holds \<open>a\<close> is
  call number \<open>a\<close> (from 0) and the back-off after its failure is
  \<open>2 ^ (a + 1) * 1000\<close> ms.
\<close>

function retry_loop ::
  "backend \<Rightarrow> nat \<Rightarrow> string \<Rightarrow> nat \<Rightarrow> nat \<Rightarrow> thrown option \<Rightarrow> nat list \<Rightarrow> retry_run" where
  "retry_loop gen maxRetries chunk chunkIndex attemptCount lastError slept =
     (if attemptCount < maxRetries then
        (case gen chunkIndex attemptCount (createChunkSummaryPrompt chunk) of
           Inr summary \<Rightarrow>
             \<lparr>outcome = Inr summary, attempts = attemptCount + 1, backoffs = slept\<rparr>
         | Inl error \<Rightarrow>
             retry_loop gen maxRetries chunk chunkIndex (attemptCount + 1)
               (Some (toError error)) (slept @ [2 ^ (attemptCount + 1) * 1000]))
      else
        \<lparr>outcome = Inl (case lastError of
                           Some e \<Rightarrow> e
                         | None \<Rightarrow> ErrorObj (''Failed to summarize chunk '' @ show_nat (chunkIndex + 1)
                                     @ '' after '' @ show_nat maxRetries @ '' attempts'')),
         attempts = attemptCount, backoffs = slept\<rparr>)"
  by pat_completeness auto
termination
  by (relation "measure (\<lambda>(gen, maxRetries, chunk, chunkIndex, attemptCount, lastError, slept).
                           maxRetries - attemptCount)") auto

declare retry_loop.simps [simp del]

definition summarizeChunkWithRetry :: "backend \<Rightarrow> nat \<Rightarrow> string \<Rightarrow> nat \<Rightarrow> retry_run" where
  "summarizeChunkWithRetry gen maxRetries chunk chunkIndex =
     retry_loop gen maxRetries chunk chunkIndex 0 None []"


subsection \<open>The batched Map stage (ChunkSummarizerNode.exec)\<close>

text \<open>
  \<open>Promise.all\<close> on the settled outcomes of a batch: the array of results in input
  order when every promise fulfils, a rejection otherwise.  (When several promises of a
  batch reject, JavaScript rejects with whichever settles first; the model takes the one
  of lowest index.)
\<close>

fun promise_all :: "('e + 'a) list \<Rightarrow> 'e + 'a list" where
  "promise_all [] = Inr []"
| "promise_all (Inl e # rs) = Inl e"
| "promise_all (Inr v # rs) =
     (case promise_all rs of Inl e \<Rightarrow> Inl e | Inr vs \<Rightarrow> Inr (v # vs))"

text \<open>\<open>xs.slice(i, j)\<close> for \<open>0 \<le> i \<le> j\<close>.\<close>

definition slice :: "'a list \<Rightarrow> nat \<Rightarrow> nat \<Rightarrow> 'a list" where
  "slice xs i j = take (j - i) (drop i xs)"

text \<open>
  \<^verbatim>\<open>Math.min(this.maxConcurrent, Math.max(2, Math.ceil(6 / chunks.length)))\<close>,
  for a non-empty chunk array of length \<open>n\<close>.
\<close>

definition actualConcurrency :: "nat \<Rightarrow> nat \<Rightarrow> nat" where
  "actualConcurrency maxConcurrent n = min maxConcurrent (max 2 (nat \<lceil>(6::rat) / of_nat n\<rceil>))"

text \<open>
  What one run of \<open>exec\<close> does: the summaries returned or the value thrown, and the
  batches it started, in order, each as the list of chunk indices \<open>i + batchIndex\<close>
  whose tasks were created together and awaited by one \<open>Promise.all\<close>.
\<close>

record map_run =
  summaries :: "thrown + string list"
  batches :: "nat list list"

text \<open>
  The loop \<^verbatim>\<open>for (let i = 0; i < chunks.length; i += actualConcurrency)\<close>.  With
  \<open>actualConcurrency = 0\<close> the index never advances and the loop does not end, hence a
  partial function: no result is \<open>None\<close>.
\<close>

partial_function (option) exec_loop ::
  "backend \<Rightarrow> nat \<Rightarrow> string list \<Rightarrow> nat \<Rightarrow> nat \<Rightarrow> string list \<Rightarrow> nat list list \<Rightarrow> map_run option" where
  "exec_loop gen maxRetries chunks actualConc i chunkSummaries started =
     (if i < length chunks then
        (let batch = slice chunks i (i + actualConc);
             batchPromises = map (\<lambda>(chunk, batchIndex).
                 outcome (summarizeChunkWithRetry gen maxRetries chunk (i + batchIndex)))
               (zip batch [0..<length batch]);
             started' = started @ [map (\<lambda>batchIndex. i + batchIndex) [0..<length batch]]
         in case promise_all batchPromises of
              Inl e \<Rightarrow> Some \<lparr>summaries = Inl e, batches = started'\<rparr>
            | Inr batchResults \<Rightarrow>
                exec_loop gen maxRetries chunks actualConc (i + actualConc)
                  (chunkSummaries @ batchResults) started')
      else Some \<lparr>summaries = Inr chunkSummaries, batches = started\<rparr>)"

declare exec_loop.simps [code]

definition exec :: "backend \<Rightarrow> nat \<Rightarrow> nat \<Rightarrow> string list option \<Rightarrow> map_run option" where
  "exec gen maxConcurrent maxRetries chunks =
     (case chunks of
        None \<Rightarrow> Some \<lparr>summaries = Inl (ErrorObj ''No chunks available for summarization''), batches = []\<rparr>
      | Some cs \<Rightarrow>
          if length cs = 0
          then Some \<lparr>summaries = Inl (ErrorObj ''No chunks available for summarization''), batches = []\<rparr>
          else exec_loop gen maxRetries cs (actualConcurrency maxConcurrent (length cs)) 0 [] [])"

text \<open>
  For stating what \<open>exec\<close> does: the settled outcome of the task of chunk \<open>j\<close>, and
  the consecutive index ranges of width \<open>w\<close> that cover \<open>i, \<dots>, n - 1\<close>.
\<close>

definition task :: "backend \<Rightarrow> nat \<Rightarrow> string list \<Rightarrow> nat \<Rightarrow> thrown + string" where
  "task gen maxRetries chunks j = outcome (summarizeChunkWithRetry gen maxRetries (chunks ! j) j)"



section \<open>Text: strings as UTF-16 code units\<close>

text \<open>
  A JavaScript string is a sequence of UTF-16 code units; \<open>length\<close>, indexing,
  \<open>substring\<close> and the regular expressions used here (none has the \<open>u\<close> flag) all
  work on code units.  The ellipsis \<open>\<dots>\<close> is the single unit 0x2026.
\<close>

type_synonym code_unit = nat
type_synonym jstring = "code_unit list"

definition js :: "string \<Rightarrow> jstring" where
  "js s = map of_char s"

text \<open>The class \<open>\s\<close>, which is also what \<open>trim()\<close> strips.\<close>

definition isSpace :: "code_unit \<Rightarrow> bool" where
  "isSpace c \<longleftrightarrow>
     c = 0x09 \<or> c = 0x0A \<or> c = 0x0B \<or> c = 0x0C \<or> c = 0x0D \<or> c = 0x20 \<or> c = 0xA0 \<or>
     c = 0x1680 \<or> (0x2000 \<le> c \<and> c \<le> 0x200A) \<or> c = 0x2028 \<or> c = 0x2029 \<or>
     c = 0x202F \<or> c = 0x205F \<or> c = 0x3000 \<or> c = 0xFEFF"


definition trim :: "jstring \<Rightarrow> jstring" where
  "trim s = rev (dropWhile isSpace (rev (dropWhile isSpace s)))"

text \<open>\<open>xs.join(sep)\<close>.\<close>

fun join :: "jstring \<Rightarrow> jstring list \<Rightarrow> jstring" where
  "join sep [] = []"
| "join sep [x] = x"
| "join sep (x # y # ys) = x @ sep @ join sep (y # ys)"

definition space :: jstring where
  "space = [0x20]"

text \<open>
  \<open>text.split(re)\<close> for a regular expression \<open>re\<close> of the shape \<open>(?<=L)C+\<close>: a
  maximal run of units of class \<open>C\<close>, which starts a separator only where the unit just
  before it (if any) satisfies \<open>look\<close>.  \<open>prev\<close> is the unit before the current
  position, \<open>cur\<close> the piece collected since the last separator.  Such an expression
  never matches the empty string, so the result always has at least one piece, and a
  separator at the very start or end leaves an empty piece there.
\<close>

function split_runs ::
  "(code_unit option \<Rightarrow> bool) \<Rightarrow> (code_unit \<Rightarrow> bool) \<Rightarrow> code_unit option \<Rightarrow> jstring \<Rightarrow> jstring \<Rightarrow> jstring list" where
  "split_runs look C prev cur [] = [cur]"
| "split_runs look C prev cur (c # cs) =
     (if C c \<and> look prev
      then cur # split_runs look C (Some (last (c # takeWhile C cs))) [] (dropWhile C cs)
      else split_runs look C (Some c) (cur @ [c]) cs)"
  by pat_completeness auto
termination
  by (relation "measure (\<lambda>(look, C, prev, cur, s). length s)")
     (auto simp: length_dropWhile_le le_imp_less_Suc)

text \<open>\<open>text.split(/\s+/)\<close>.\<close>

definition split_whitespace :: "jstring \<Rightarrow> jstring list" where
  "split_whitespace s = split_runs (\<lambda>_. True) isSpace None [] s"

section \<open>Base chunking strategy (baseStrategy.ts)\<close>

subsection \<open>The sentence splitter\<close>

text \<open>The classes \<open>[.!?\<dots>]\<close> and \<open>["']\<close>.\<close>

definition isTerminator :: "code_unit \<Rightarrow> bool" where
  "isTerminator c \<longleftrightarrow> c = 0x2E \<or> c = 0x21 \<or> c = 0x3F \<or> c = 0x2026"

definition isQuote :: "code_unit \<Rightarrow> bool" where
  "isQuote c \<longleftrightarrow> c = 0x22 \<or> c = 0x27"

text \<open>
  One match of \<^verbatim>\<open>/[^.!?\<dots>]+[.!?\<dots>]+["']?(?=\s|$)/\<close> anchored at the head of \<open>s\<close>:
  the text matched and the rest of the input, if the expression matches there.  The
  three classes are disjoint from each other and from \<open>\s\<close>, so backtracking never
  finds a match that the greedy attempt misses: the first run must stop at a
  terminator, the second at a non-terminator, and a quote left unmatched is neither
  whitespace nor the end.
\<close>

definition match_sentence :: "jstring \<Rightarrow> (jstring \<times> jstring) option" where
  "match_sentence s =
     (let body = takeWhile (\<lambda>c. \<not> isTerminator c) s;
          s1 = dropWhile (\<lambda>c. \<not> isTerminator c) s;
          marks = takeWhile isTerminator s1;
          s2 = dropWhile isTerminator s1
      in if body = [] \<or> marks = [] then None
         else (case s2 of
                 [] \<Rightarrow> Some (body @ marks, [])
               | q # s3 \<Rightarrow>
                   if isQuote q
                   then (case s3 of
                           [] \<Rightarrow> Some (body @ marks @ [q], s3)
                         | c # _ \<Rightarrow> if isSpace c then Some (body @ marks @ [q], s3) else None)
                   else if isSpace q then Some (body @ marks, s2) else None))"

text \<open>
  \<open>Array.from(text.matchAll(sentenceRegex)).map(match => match[0])\<close>: where the
  expression does not match, the search moves on by one unit; after a match it resumes
  at the end of the match.
\<close>

function regex_sentences :: "jstring \<Rightarrow> jstring list" where
  "regex_sentences s =
     (if s = [] then []
      else (case match_sentence s of
              Some (m, rest) \<Rightarrow> m # regex_sentences rest
            | None \<Rightarrow> regex_sentences (tl s)))"
  by pat_completeness auto
termination
proof -
  have shorter: "\<And>s m rest. match_sentence s = Some (m, rest) \<Longrightarrow> length rest < length s"
  proof -
      fix s :: jstring and m rest
    assume a: "match_sentence s = Some (m, rest)"
      define body where "body = takeWhile (\<lambda>c. \<not> isTerminator c) s"
      define s1 where "s1 = dropWhile (\<lambda>c. \<not> isTerminator c) s"
      define marks where "marks = takeWhile isTerminator s1"
      define s2 where "s2 = dropWhile isTerminator s1"
      have m: "match_sentence s =
         (if body = [] \<or> marks = [] then None
          else (case s2 of
                  [] \<Rightarrow> Some (body @ marks, [])
                | q # s3 \<Rightarrow>
                    if isQuote q
                    then (case s3 of
                            [] \<Rightarrow> Some (body @ marks @ [q], s3)
                          | c # _ \<Rightarrow> if isSpace c then Some (body @ marks @ [q], s3) else None)
                    else if isSpace q then Some (body @ marks, s2) else None))"
        unfolding match_sentence_def body_def s1_def marks_def s2_def Let_def ..
      have ne: "body \<noteq> []" using a m by (cases "body = [] \<or> marks = []") simp_all
      have "s = body @ s1" unfolding body_def s1_def by simp
      then have "length s = length body + length s1" by (metis length_append)
      then have l1: "length s1 < length s" using ne by (cases body) simp_all
      have l2: "length s2 \<le> length s1" unfolding s2_def by (rule length_dropWhile_le)
      have l3: "length rest \<le> length s2"
      proof (cases s2)
        case Nil
        then show ?thesis using a m ne by (cases "marks = []") simp_all
      next
        case (Cons q s3)
        show ?thesis
        proof (cases "isQuote q")
          case True
          then show ?thesis using a m ne Cons
            by (cases "marks = []"; cases s3) (auto split: if_splits)
        next
          case False
          then show ?thesis using a m ne Cons
            by (cases "marks = []") (auto split: if_splits)
        qed
      qed
      show "length rest < length s" using l1 l2 l3 by simp
  qed
  show ?thesis
    by (relation "measure length") (auto simp: shorter)
qed

declare regex_sentences.simps [simp del]

text \<open>\<open>text.split(/(?<=[.!?])\s+/)\<close> and \<open>text.split(/\n+/)\<close>.\<close>

definition simple_split :: "jstring \<Rightarrow> jstring list" where
  "simple_split s =
     split_runs (\<lambda>prev. prev = Some 0x2E \<or> prev = Some 0x21 \<or> prev = Some 0x3F) isSpace None [] s"

definition line_split :: "jstring \<Rightarrow> jstring list" where
  "line_split s = split_runs (\<lambda>_. True) (\<lambda>c. c = 0x0A) None [] s"

text \<open>\<open>text.substring(i, j)\<close> for \<open>i \<le> j\<close>.\<close>

definition substring :: "jstring \<Rightarrow> nat \<Rightarrow> nat \<Rightarrow> jstring" where
  "substring s i j = take (j - i) (drop i s)"

text \<open>
  The two backward searches of \<open>forceSplitByCharCount\<close>:
  \<^verbatim>\<open>for (let i = endIdx; i >= endIdx - searchRange && i > startIdx; i--)\<close>, returning
  \<open>i + 1\<close> for the first \<open>i\<close> that satisfies the test.
\<close>

function search_down :: "(nat \<Rightarrow> bool) \<Rightarrow> nat \<Rightarrow> int \<Rightarrow> nat \<Rightarrow> nat option" where
  "search_down P i lowest startIdx =
     (if int i \<ge> lowest \<and> i > startIdx
      then (if P i then Some (i + 1) else search_down P (i - 1) lowest startIdx)
      else None)"
  by pat_completeness auto
termination
  by (relation "measure (\<lambda>(P, i, lowest, startIdx). i)") auto

declare search_down.simps [simp del]

text \<open>
  The \<open>while (startIdx < text.length)\<close> loop of \<open>forceSplitByCharCount\<close>.  With
  \<open>targetLength = 0\<close> it never advances, hence a partial function.
\<close>

partial_function (option) force_loop :: "jstring \<Rightarrow> nat \<Rightarrow> nat \<Rightarrow> jstring list \<Rightarrow> jstring list option" where
  "force_loop text targetLength startIdx chunks =
     (if startIdx < length text then
        (let endIdx0 = min (startIdx + targetLength) (length text);
             endIdx =
               (if endIdx0 < length text then
                  (let searchRange = nat \<lfloor>rat_of_nat targetLength * 0.2\<rfloor>;
                       breakPoint =
                         (case search_down
                                 (\<lambda>i. isTerminator (text ! i)
                                      \<and> (i + 1 \<ge> length text \<or> isSpace (text ! (i + 1))))
                                 endIdx0 (int endIdx0 - int searchRange) startIdx of
                            Some b \<Rightarrow> Some b
                          | None \<Rightarrow>
                              search_down (\<lambda>i. isSpace (text ! i))
                                endIdx0 (int endIdx0 - int searchRange) startIdx)
                   in (case breakPoint of Some b \<Rightarrow> b | None \<Rightarrow> endIdx0))
                else endIdx0)
         in force_loop text targetLength endIdx (chunks @ [trim (substring text startIdx endIdx)]))
      else Some chunks)"

declare force_loop.simps [code]

definition forceSplitByCharCount :: "jstring \<Rightarrow> nat \<Rightarrow> jstring list option" where
  "forceSplitByCharCount text targetLength = force_loop text targetLength 0 []"

text \<open>
  \<open>splitIntoSentences\<close>.  The forced split is returned as it is; the other tiers go
  through the filter on the trimmed length.
\<close>

definition splitIntoSentences :: "jstring \<Rightarrow> jstring list option" where
  "splitIntoSentences text =
     (let sentences = regex_sentences text
      in if length sentences \<le> 5 \<and> length (trim text) > 0 then
           (let simpleSplit = simple_split text;
                sentences = (if length simpleSplit > length sentences then simpleSplit else sentences);
                sentences =
                  (if length sentences \<le> 5 then
                     (let lineBreakSplit = filter (\<lambda>line. length (trim line) > 0) (line_split text)
                      in if length lineBreakSplit > length sentences then lineBreakSplit else sentences)
                   else sentences)
            in if length sentences \<le> 5 then forceSplitByCharCount text 800
               else Some (filter (\<lambda>s. length (trim s) \<ge> 5) sentences))
         else Some (filter (\<lambda>s. length (trim s) \<ge> 5) sentences))"

text \<open>\<open>estimateTokens\<close>: \<^verbatim>\<open>Math.ceil(text.length / 4)\<close>.\<close>

definition estimateTokens :: "jstring \<Rightarrow> nat" where
  "estimateTokens s = nat \<lceil>rat_of_nat (length s) / 4\<rceil>"

text \<open>
  The target size computed at the head of \<open>createChunksFromSentences\<close>:
  \<^verbatim>\<open>forceChunks ? Math.ceil(totalTokens / Math.max(3, Math.ceil(totalTokens / maxTokensPerChunk)))
              : maxTokensPerChunk\<close>.
  With more than 10 sentences the joined text has at least 10 spaces, so
  \<open>totalTokens > 0\<close>; then for \<open>maxTokensPerChunk = 0\<close> the inner quotient is
  \<open>Infinity\<close> and the result is \<open>Math.ceil(totalTokens / Infinity) = 0\<close>, which is
  written out (HOL's \<open>x / 0\<close> is \<open>0\<close>).
\<close>

definition forcedChunkSize :: "jstring list \<Rightarrow> int \<Rightarrow> int" where
  "forcedChunkSize sentences maxTokensPerChunk =
     (let forceChunks = length sentences > 10;
          totalText = join space sentences;
          totalTokens = estimateTokens totalText
      in if forceChunks
         then (if maxTokensPerChunk = 0 then 0
               else \<lceil>rat_of_nat totalTokens /
                      of_int (max 3 \<lceil>rat_of_nat totalTokens / of_int maxTokensPerChunk\<rceil>)\<rceil>)
         else maxTokensPerChunk)"

text \<open>
  The \<open>for (const sentence of sentences)\<close> loop of \<open>createChunksFromSentences\<close>, on
  the state \<open>(chunks, currentChunk, currentTokenCount)\<close>.
\<close>

fun pack_step :: "int \<Rightarrow> jstring list \<times> jstring list \<times> nat \<Rightarrow> jstring \<Rightarrow> jstring list \<times> jstring list \<times> nat" where
  "pack_step target (chunks, currentChunk, currentTokenCount) sentence =
     (let sentenceTokens = estimateTokens sentence
      in if int (currentTokenCount + sentenceTokens) > target \<and> length currentChunk > 0
         then (chunks @ [join space currentChunk], [sentence], sentenceTokens)
         else (chunks, currentChunk @ [sentence], currentTokenCount + sentenceTokens))"

fun pack_loop :: "int \<Rightarrow> jstring list \<times> jstring list \<times> nat \<Rightarrow> jstring list \<Rightarrow> jstring list \<times> jstring list \<times> nat" where
  "pack_loop target st [] = st"
| "pack_loop target st (sentence # rest) = pack_loop target (pack_step target st sentence) rest"

definition createChunksFromSentences :: "jstring list \<Rightarrow> int \<Rightarrow> jstring list" where
  "createChunksFromSentences sentences maxTokensPerChunk =
     (case pack_loop (forcedChunkSize sentences maxTokensPerChunk) ([], [], 0) sentences of
        (chunks, currentChunk, currentTokenCount) \<Rightarrow>
          if length currentChunk > 0 then chunks @ [join space currentChunk] else chunks)"

section \<open>Chunking strategies\<close>

text \<open>
  Numbers are JavaScript doubles in the source; the model computes with exact rationals.
  The two agree except where a rounding error moves a quotient or product across an
  integer or across a threshold it is compared with.  \<open>None\<close> stands for \<open>Infinity\<close>.
\<close>

text \<open>
  \<^verbatim>\<open>Math.max(1, totalTokens / (maxLength * 0.9))\<close> of the uniform and the bookend
  strategy.  It is computed for a transcript with more than one sentence, so
  \<open>totalTokens > 0\<close> and the quotient is \<open>Infinity\<close> when \<open>maxLength = 0\<close>.
\<close>

definition reductionFactor :: "nat \<Rightarrow> int \<Rightarrow> rat option" where
  "reductionFactor totalTokens maxLength =
     (let maxTokensPerChunk = of_int maxLength * 0.9
      in if maxTokensPerChunk = 0 then None
         else Some (max 1 (rat_of_nat totalTokens / maxTokensPerChunk)))"

text \<open>The test \<open>reductionFactor < 1.5\<close>.\<close>

definition below_1_5 :: "rat option \<Rightarrow> bool" where
  "below_1_5 rf = (case rf of None \<Rightarrow> False | Some r \<Rightarrow> r < 1.5)"

subsection \<open>Uniform sampling (uniformSamplingStrategy.ts)\<close>

text \<open>
  The sampling loop \<^verbatim>\<open>for (let i = 0; i < sentences.length; i += samplingInterval)\<close>.
  The interval is \<open>Math.max(1, \<dots>)\<close>, hence positive; the loop applies the \<open>max\<close>
  itself, which makes it a total function.
\<close>

function uniform_loop :: "jstring list \<Rightarrow> nat \<Rightarrow> nat option \<Rightarrow> nat \<Rightarrow> jstring list" where
  "uniform_loop sentences windowSize samplingInterval i =
     (if i < length sentences then
        [sentences ! i]
        @ (if windowSize > 0 \<and> i + 1 < length sentences
              \<and> (case samplingInterval of None \<Rightarrow> True | Some k \<Rightarrow> k > 2)
           then [sentences ! (i + 1)] else [])
        @ (case samplingInterval of
             None \<Rightarrow> []
           | Some k \<Rightarrow> uniform_loop sentences windowSize samplingInterval (i + max 1 k))
      else [])"
  by pat_completeness auto
termination
  by (relation "measure (\<lambda>(sentences, windowSize, samplingInterval, i). length sentences - i)") auto

declare uniform_loop.simps [simp del]

definition uniform_sample :: "jstring list \<Rightarrow> rat option \<Rightarrow> jstring list" where
  "uniform_sample sentences rf =
     (let n = length sentences;
          windowSize = min 3 (nat \<lfloor>rat_of_nat n / 10\<rfloor>);
          samplingInterval =
            (case rf of
               None \<Rightarrow> None
             | Some r \<Rightarrow> Some (nat (max 1 \<lfloor>rat_of_nat n / (rat_of_nat n / r)\<rfloor>)))
      in uniform_loop sentences windowSize samplingInterval 0)"

definition uniform_chunkTranscript :: "jstring \<Rightarrow> int \<Rightarrow> jstring list option" where
  "uniform_chunkTranscript transcript maxLength =
     (case splitIntoSentences transcript of
        None \<Rightarrow> None
      | Some sentences \<Rightarrow>
          Some (if length sentences \<le> 1 then [transcript]
                else (let totalTokens = estimateTokens transcript;
                          rf = reductionFactor totalTokens maxLength
                      in if below_1_5 rf then createChunksFromSentences sentences maxLength
                         else createChunksFromSentences (uniform_sample sentences rf) maxLength)))"

subsection \<open>Bookend sampling (bookendSamplingStrategy.ts)\<close>

definition totalSentencesToKeep :: "nat \<Rightarrow> rat option \<Rightarrow> nat" where
  "totalSentencesToKeep n rf = (case rf of None \<Rightarrow> 0 | Some r \<Rightarrow> nat \<lfloor>rat_of_nat n / r\<rfloor>)"

definition bookendSize :: "nat \<Rightarrow> rat option \<Rightarrow> nat" where
  "bookendSize n rf = nat \<lfloor>rat_of_nat (totalSentencesToKeep n rf) * 0.4\<rfloor>"

definition middleSentencesToKeep :: "nat \<Rightarrow> rat option \<Rightarrow> nat" where
  "middleSentencesToKeep n rf =
     nat (max 0 (int (totalSentencesToKeep n rf) - int (bookendSize n rf * 2)))"

text \<open>
  The middle loop \<^verbatim>\<open>for (let i = middleStart; i < middleEnd; i += samplingInterval)\<close>,
  whose body adds one more to \<open>i\<close> when it takes a context sentence.  The interval is
  \<open>Math.max(1, \<dots>)\<close>; the loop applies the \<open>max\<close> itself.
\<close>

function middle_loop :: "jstring list \<Rightarrow> nat \<Rightarrow> nat \<Rightarrow> nat \<Rightarrow> jstring list" where
  "middle_loop sentences middleEnd samplingInterval i =
     (if i < middleEnd then
        (if samplingInterval > 2 \<and> i + 1 < middleEnd
         then [sentences ! i, sentences ! (i + 1)]
              @ middle_loop sentences middleEnd samplingInterval (i + 1 + max 1 samplingInterval)
         else [sentences ! i]
              @ middle_loop sentences middleEnd samplingInterval (i + max 1 samplingInterval))
      else [])"
  by pat_completeness auto
termination
  by (relation "measure (\<lambda>(sentences, middleEnd, samplingInterval, i). middleEnd - i)") auto

declare middle_loop.simps [simp del]

text \<open>\<open>xs.indexOf(x)\<close>: the first index of \<open>x\<close>, or \<open>-1\<close>.\<close>

fun indexOf :: "'a list \<Rightarrow> 'a \<Rightarrow> int" where
  "indexOf [] x = -1"
| "indexOf (y # ys) x = (if y = x then 0 else (let r = indexOf ys x in if r = -1 then -1 else r + 1))"

text \<open>
  The sentences sampled by the bookend strategy, after the (stable) sort on
  \<open>sentences.indexOf\<close>.
\<close>

definition bookend_sample :: "jstring list \<Rightarrow> rat option \<Rightarrow> jstring list" where
  "bookend_sample sentences rf =
     (let n = length sentences;
          bookend = bookendSize n rf;
          middleToKeep = middleSentencesToKeep n rf;
          beginning = map (\<lambda>i. sentences ! i) [0 ..< min bookend n];
          middle =
            (if middleToKeep > 0 \<and> n > bookend * 2 then
               (let middleStart = bookend;
                    middleEnd = n - bookend;
                    middleRange = middleEnd - middleStart
                in if middleRange > 0
                   then middle_loop sentences middleEnd
                          (nat (max 1 \<lfloor>rat_of_nat middleRange / rat_of_nat middleToKeep\<rfloor>)) middleStart
                   else [])
             else []);
          ending = map (\<lambda>i. sentences ! i) [nat (max 0 (int n - int bookend)) ..< n]
      in sort_key (indexOf sentences) (beginning @ middle @ ending))"

definition bookend_chunkTranscript :: "jstring \<Rightarrow> int \<Rightarrow> jstring list option" where
  "bookend_chunkTranscript transcript maxLength =
     (case splitIntoSentences transcript of
        None \<Rightarrow> None
      | Some sentences \<Rightarrow>
          Some (if length sentences \<le> 1 then [transcript]
                else (let totalTokens = estimateTokens transcript;
                          rf = reductionFactor totalTokens maxLength
                      in if below_1_5 rf then createChunksFromSentences sentences maxLength
                         else createChunksFromSentences (bookend_sample sentences rf) maxLength)))"

subsection \<open>Intelligent sampling (intelligentSamplingStrategy.ts)\<close>

definition importantKeywords :: "jstring list" where
  "importantKeywords = map js
     [''summary'', ''conclusion'', ''therefore'', ''important'', ''key'', ''significant'',
      ''result'', ''finding'', ''main point'', ''takeaway'', ''highlight'', ''critical'',
      ''essential'', ''crucial'', ''finally'', ''in summary'', ''to summarize'',
      ''ultimately'', ''in conclusion'', ''altogether'', ''overall'']"

text \<open>
  \<open>toLowerCase\<close>, as far as \<open>scoreSentences\<close> can tell: it looks only at the length
  of the result and at occurrences of (ASCII) keywords in it.  The units whose
  lower-case form contains an ASCII letter are \<open>A\<close> to \<open>Z\<close>, the Kelvin sign and the
  dotted capital I, which is also the only unit whose lower-case form has another
  length; every other unit is left as it is.
\<close>

definition lowerUnit :: "code_unit \<Rightarrow> jstring" where
  "lowerUnit c =
     (if 0x41 \<le> c \<and> c \<le> 0x5A then [c + 0x20]
      else if c = 0x212A then [0x6B]
      else if c = 0x130 then [0x69, 0x307]
      else [c])"

definition toLowerCase :: "jstring \<Rightarrow> jstring" where
  "toLowerCase s = concat (map lowerUnit s)"

text \<open>\<open>s.indexOf(k)\<close> on strings (\<open>None\<close> for \<open>-1\<close>); \<open>s.includes(k)\<close> is \<open>s.indexOf(k) \<noteq> -1\<close>.\<close>

fun str_indexOf :: "jstring \<Rightarrow> jstring \<Rightarrow> nat option" where
  "str_indexOf [] k = (if k = [] then Some 0 else None)"
| "str_indexOf (c # s) k =
     (if prefix k (c # s) then Some 0 else map_option Suc (str_indexOf s k))"

text \<open>\<open>/\d+/.test(s)\<close> and \<open>/["'].*["']/.test(s)\<close>; the dot does not match a line terminator.\<close>

definition isDigit :: "code_unit \<Rightarrow> bool" where
  "isDigit c \<longleftrightarrow> 0x30 \<le> c \<and> c \<le> 0x39"

definition isLineTerminator :: "code_unit \<Rightarrow> bool" where
  "isLineTerminator c \<longleftrightarrow> c = 0x0A \<or> c = 0x0D \<or> c = 0x2028 \<or> c = 0x2029"

fun hasQuoted :: "jstring \<Rightarrow> bool" where
  "hasQuoted [] = False"
| "hasQuoted (c # s) =
     ((isQuote c \<and> list_ex isQuote (takeWhile (\<lambda>d. \<not> isLineTerminator d) s)) \<or> hasQuoted s)"

record scored =
  sentence :: jstring
  score :: rat
  index :: nat

text \<open>The body of the \<open>map\<close> in \<open>scoreSentences\<close>, for \<open>n\<close> sentences.\<close>

definition keywordScore :: "jstring \<Rightarrow> jstring \<Rightarrow> rat" where
  "keywordScore lowerSentence keyword =
     (case str_indexOf lowerSentence (toLowerCase keyword) of
        None \<Rightarrow> 0
      | Some keywordIndex \<Rightarrow>
          (let normalizedPosition = rat_of_nat keywordIndex / rat_of_nat (length lowerSentence)
           in if normalizedPosition < 0.3 then 3 else 2))"

definition scoreSentence :: "nat \<Rightarrow> jstring \<Rightarrow> nat \<Rightarrow> scored" where
  "scoreSentence n s i =
     (let lowerSentence = toLowerCase s;
          position =
            (if rat_of_nat i < rat_of_nat n * 0.15 then 3
             else if rat_of_nat i > rat_of_nat n * 0.85 then 2.5
             else if rat_of_nat i > rat_of_nat n * 0.4 \<and> rat_of_nat i < rat_of_nat n * 0.6 then 1
             else 0);
          wordCount = length (split_whitespace s);
          len = (if wordCount > 8 \<and> wordCount < 30 then 1.5
                 else if wordCount \<ge> 30 \<and> wordCount < 60 then 1
                 else 0);
          keywords = sum_list (map (keywordScore lowerSentence) importantKeywords);
          numbers = (if list_ex isDigit s then 1.5 else 0);
          quotes = (if hasQuoted s then 1.5 else 0)
      in \<lparr>sentence = s, score = position + len + keywords + numbers + quotes, index = i\<rparr>)"

definition scoreSentences :: "jstring list \<Rightarrow> scored list" where
  "scoreSentences sentences =
     map (\<lambda>(s, i). scoreSentence (length sentences) s i) (zip sentences [0 ..< length sentences])"

text \<open>\<open>Math.min(0.8, 2.0 / reductionFactor)\<close> and the number of sentences it keeps.\<close>

definition numSentencesToKeep :: "nat \<Rightarrow> rat \<Rightarrow> nat" where
  "numSentencesToKeep n rf = (let percentToKeep = min 0.8 (2.0 / rf) in nat \<lceil>rat_of_nat n * percentToKeep\<rceil>)"

text \<open>\<open>calculateImportanceThreshold\<close>; the sort is stable and descending in the score.\<close>

definition calculateImportanceThreshold :: "scored list \<Rightarrow> rat \<Rightarrow> rat" where
  "calculateImportanceThreshold scoredSentences rf =
     (let sortedByScore = sort_key (\<lambda>a. - score a) scoredSentences;
          keep = numSentencesToKeep (length scoredSentences) rf
      in if keep \<ge> length sortedByScore then 0 else score (sortedByScore ! (keep - 1)))"

text \<open>
  The loop of \<open>extractImportantSegments\<close> over the tagged sentences (a sentence with
  its \<open>isImportant\<close> flag), on the state \<open>(segments, currentSegment,
  inImportantSection)\<close>.  Leaving an important section takes the current sentence and up
  to two more, and skips these two: the index advances by 3.
\<close>

function segment_loop ::
  "(scored \<times> bool) list \<Rightarrow> nat \<Rightarrow> jstring list list \<Rightarrow> jstring list \<Rightarrow> bool \<Rightarrow> jstring list list \<times> jstring list" where
  "segment_loop tagged i segments currentSegment inImportantSection =
     (if i < length tagged then
        (let item = tagged ! i;
             n = length tagged;
             isBeginningOrEnd = rat_of_nat i < rat_of_nat n * 0.15 \<or> rat_of_nat i > rat_of_nat n * (1 - 0.15)
         in if snd item \<or> isBeginningOrEnd then
              segment_loop tagged (i + 1) segments
                ((if \<not> inImportantSection
                  then currentSegment @ map (\<lambda>j. sentence (fst (tagged ! j))) [i - 3 ..< i]
                  else currentSegment) @ [sentence (fst item)])
                True
            else if inImportantSection then
              segment_loop tagged (i + 3)
                (segments @ [currentSegment @ [sentence (fst item)]
                              @ map (\<lambda>j. sentence (fst (tagged ! (i + j)))) (filter (\<lambda>j. i + j < n) [1, 2])])
                [] False
            else segment_loop tagged (i + 1) segments currentSegment inImportantSection)
      else (segments, currentSegment))"
  by pat_completeness auto
termination
  by (relation "measure (\<lambda>(tagged, i, segments, currentSegment, inImportantSection). length tagged - i)")
     auto

declare segment_loop.simps [simp del]

definition extractImportantSegments :: "scored list \<Rightarrow> rat \<Rightarrow> jstring list list" where
  "extractImportantSegments scoredSentences rf =
     (let sortedSentences = sort_key index scoredSentences;
          importanceThreshold = calculateImportanceThreshold sortedSentences rf;
          taggedSentences = map (\<lambda>item. (item, score item \<ge> importanceThreshold)) sortedSentences
      in case segment_loop taggedSentences 0 [] [] False of
           (segments, currentSegment) \<Rightarrow>
             (let segments = (if length currentSegment > 0 then segments @ [currentSegment] else segments)
              in if length segments = 0
                 then (let keep = numSentencesToKeep (length taggedSentences) rf;
                           topSentences =
                             map sentence
                               (sort_key index (take keep (sort_key (\<lambda>a. - score a) scoredSentences)))
                       in segments @ [topSentences])
                 else segments))"

text \<open>
  The window loop of \<open>createLargerContextChunks\<close>.  \<open>perChunk\<close> is
  \<open>Math.ceil(sentences.length / numChunks)\<close>; the width \<open>Math.max(5, perChunk)\<close> and the
  overlap \<open>Math.ceil(width * 0.15)\<close> are computed from it as in the source, and the
  step \<open>width - overlap\<close> is then positive.
\<close>

function larger_loop :: "jstring list \<Rightarrow> nat \<Rightarrow> nat \<Rightarrow> jstring list" where
  "larger_loop sentences perChunk i =
     (let sentencesPerChunk = max 5 perChunk;
          overlap = nat \<lceil>rat_of_nat sentencesPerChunk * 0.15\<rceil>
      in if i < length sentences then
           (let end = min (i + sentencesPerChunk) (length sentences);
                chunk = join space (slice sentences i end)
            in (if length (trim chunk) > 0 then [chunk] else [])
               @ (if end \<ge> length sentences then []
                  else larger_loop sentences perChunk (i + (sentencesPerChunk - overlap))))
         else [])"
  by pat_completeness auto
termination
proof (relation "measure (\<lambda>(sentences, perChunk, i). length sentences - i)")
  show "wf (measure (\<lambda>(sentences, perChunk, i). length sentences - i))" by simp
next
  fix sentences :: "jstring list" and perChunk i x xa xb
  assume a: "x = max 5 perChunk" "xa = nat \<lceil>rat_of_nat x * 0.15\<rceil>" "i < length sentences"
            "xb = min (i + x) (length sentences)" "\<not> length sentences \<le> xb"
  have "rat_of_nat x * 0.15 \<le> rat_of_nat x - 1" using a(1) by simp
  then have "\<lceil>rat_of_nat x * 0.15\<rceil> \<le> \<lceil>rat_of_nat x - 1\<rceil>" by (rule ceiling_mono)
  then have "xa < x" using a(1,2) by simp
  then show "((sentences, perChunk, i + (x - xa)), sentences, perChunk, i)
               \<in> measure (\<lambda>(sentences, perChunk, i). length sentences - i)"
    using a(3) by simp
qed

declare larger_loop.simps [simp del]

text \<open>
  \<open>createLargerContextChunks(sentences, targetSize, minChunks?)\<close>.  The joined text of
  more than 10 sentences has a positive token estimate, so for \<open>targetSize = 0\<close> the
  number of chunks is \<open>Infinity\<close> and \<open>Math.ceil(sentences.length / numChunks)\<close> is 0.
  An absent \<open>minChunks\<close> and \<open>minChunks = 0\<close> are both falsy.
\<close>

definition createLargerContextChunks :: "jstring list \<Rightarrow> nat \<Rightarrow> nat option \<Rightarrow> jstring list" where
  "createLargerContextChunks sentences targetSize minChunks =
     (if length sentences \<le> 10 then [join space sentences]
      else (let totalTokens = estimateTokens (join space sentences);
                perChunk =
                  (if targetSize = 0 then 0
                   else (let calculatedChunks = max 1 (nat \<lceil>rat_of_nat totalTokens / rat_of_nat targetSize\<rceil>);
                             numChunks = (case minChunks of
                                            None \<Rightarrow> calculatedChunks
                                          | Some m \<Rightarrow> if m = 0 then calculatedChunks else max calculatedChunks m)
                         in nat \<lceil>rat_of_nat (length sentences) / rat_of_nat numChunks\<rceil>))
            in larger_loop sentences perChunk 0))"

text \<open>
  \<open>createForcedChunks\<close>.  For \<open>targetSize = 0\<close> the minimum number of chunks is
  \<open>Infinity\<close> and \<open>Math.floor(sentences.length / minChunks)\<close> is 0.
\<close>

definition createForcedChunks :: "jstring list \<Rightarrow> nat \<Rightarrow> jstring list" where
  "createForcedChunks sentences targetSize =
     (let forced =
            (if length sentences > 10 \<and> targetSize \<noteq> 0 then
               (let totalTokens = estimateTokens (join space sentences);
                    minChunks = max 3 (nat \<lceil>rat_of_nat totalTokens / rat_of_nat targetSize\<rceil>);
                    sentencesPerChunk = nat \<lfloor>rat_of_nat (length sentences) / rat_of_nat minChunks\<rfloor>
                in if sentencesPerChunk \<ge> 3 then Some minChunks else None)
             else None)
      in case forced of
           Some minChunks \<Rightarrow> createLargerContextChunks sentences targetSize (Some minChunks)
         | None \<Rightarrow>
             if length sentences > 5 then createLargerContextChunks sentences targetSize (Some 2)
             else createLargerContextChunks sentences targetSize None)"

definition targetChunkSize :: "nat \<Rightarrow> nat" where
  "targetChunkSize totalTokens =
     min 1500 (nat \<lfloor>rat_of_nat totalTokens / of_int (max 3 \<lceil>rat_of_nat totalTokens / 3000\<rceil>)\<rfloor>)"

text \<open>
  \<^verbatim>\<open>Math.max(1.1, totalTokens / (targetChunkSize * Math.ceil(totalTokens / maxTokensPerChunk)))\<close>
  with \<open>maxTokensPerChunk = 4000\<close>; it is computed for \<open>totalTokens > 3000\<close>, where the
  divisor is positive.
\<close>

definition intelligentReductionFactor :: "nat \<Rightarrow> rat" where
  "intelligentReductionFactor totalTokens =
     max 1.1 (rat_of_nat totalTokens
              / (rat_of_nat (targetChunkSize totalTokens) * of_int \<lceil>rat_of_nat totalTokens / 4000\<rceil>))"

definition intelligent_sample :: "jstring list \<Rightarrow> nat \<Rightarrow> jstring list" where
  "intelligent_sample sentences totalTokens =
     concat (extractImportantSegments (scoreSentences sentences) (intelligentReductionFactor totalTokens))"

definition intelligent_chunkTranscript :: "jstring \<Rightarrow> int \<Rightarrow> jstring list option" where
  "intelligent_chunkTranscript transcript maxLength =
     (case splitIntoSentences transcript of
        None \<Rightarrow> None
      | Some sentences \<Rightarrow>
          Some (if length sentences \<le> 1 then [transcript]
                else (let totalTokens = estimateTokens transcript;
                          minimumChunking = 3000
                      in if totalTokens \<le> minimumChunking
                         then createForcedChunks sentences (targetChunkSize totalTokens)
                         else createForcedChunks (intelligent_sample sentences totalTokens)
                                (targetChunkSize totalTokens))))"

subsection \<open>A short transcript\<close>

text \<open>Seven sentences, 85 characters, 22 estimated tokens; used to instantiate the theorems.\<close>

definition seven :: jstring where
  "seven = js ''One is here. Two is there! Three now? Four then. Five follows. Six it is. Seven ends.''"

definition seven_sentences :: "jstring list" where
  "seven_sentences = [js ''One is here.'', js '' Two is there!'', js '' Three now?'', js '' Four then.'',
                      js '' Five follows.'', js '' Six it is.'', js '' Seven ends.'']"

subsection \<open>A long transcript\<close>

text \<open>
  31 sentences: 23 of one word of 600 letters (\<open>x\<close>, but \<open>y\<close> in the sentences 8 and 9)
  and 8 of ten one-letter words (the sentences 19 to 26); 14014 characters, 3504
  estimated tokens.
\<close>

definition filler :: "nat \<Rightarrow> code_unit \<Rightarrow> jstring" where
  "filler k c = 0x20 # replicate k c @ [0x2E]"

definition wordy :: jstring where
  "wordy = js '' x x x x x x x x x x.''"

definition long_sentences :: "jstring list" where
  "long_sentences =
     replicate 8 (filler 600 0x78) @ replicate 2 (filler 600 0x79) @ replicate 9 (filler 600 0x78)
     @ replicate 8 wordy @ replicate 4 (filler 600 0x78)"

definition long_transcript :: jstring where
  "long_transcript = concat long_sentences"

section \<open>Transcript validation (validator.ts)\<close>






section \<open>Rate throttler (apiThrottler.ts)\<close>

text \<open>
  Times are milliseconds on the local clock of the process (\<open>Date.now()\<close> shifted by
  the zone offset, taken to be constant), so that the local midnights are the multiples
  of 86400000.  \<open>nextMidnight now\<close> is \<^verbatim>\<open>d = new Date(); d.setHours(24, 0, 0, 0)\<close>
  evaluated at time \<open>now\<close>.
\<close>

definition nextMidnight :: "int \<Rightarrow> int" where
  "nextMidnight now = (now div 86400000 + 1) * 86400000"

record throttler =
  requestsPerMinute :: nat
  tokensPerMinute :: nat
  maxDailyRequests :: nat
  requestQueue :: "int list"
  tokenQueue :: "int list"
  dailyRequests :: nat
  dailyResetTime :: int

text \<open>The constructor, run at time \<open>now\<close>.\<close>

definition new_throttler :: "nat \<Rightarrow> nat \<Rightarrow> nat \<Rightarrow> int \<Rightarrow> throttler" where
  "new_throttler rpm tpm maxDaily now =
     \<lparr>requestsPerMinute = rpm, tokensPerMinute = tpm, maxDailyRequests = maxDaily,
      requestQueue = [], tokenQueue = [], dailyRequests = 0, dailyResetTime = nextMidnight now\<rparr>"

definition checkDailyReset :: "int \<Rightarrow> throttler \<Rightarrow> throttler" where
  "checkDailyReset now s =
     (if now \<ge> dailyResetTime s
      then s\<lparr>dailyRequests := 0, dailyResetTime := nextMidnight now\<rparr>
      else s)"

text \<open>
  The delay handed to \<open>setTimeout\<close>: a number of milliseconds, or \<open>NaN\<close> (which
  arises from \<open>requestQueue[0]\<close> on an empty queue).  A timer set at time \<open>now\<close>
  fires no earlier than its delay asks, a negative or \<open>NaN\<close> delay counting as none;
  how much later it fires is up to the event loop, and is an input \<open>late\<close> of the model.
  Code between two awaits runs at one instant.
\<close>

datatype delay = Ms int | NaN

definition fires :: "int \<Rightarrow> delay \<Rightarrow> nat \<Rightarrow> int" where
  "fires now d late = now + (case d of Ms x \<Rightarrow> max 0 x | NaN \<Rightarrow> 0) + int late"

text \<open>
  One call of \<open>throttle\<close>: the throttler when the promise resolves, the time at which
  it resolves, the value of \<open>now\<close> read for the per-minute checks, and the delay of
  each of the three sleeps, if taken.
\<close>

record throttle_run =
  after :: throttler
  resolved :: int
  checked :: int
  dailySleep :: "delay option"
  requestSleep :: "delay option"
  tokenSleep :: "delay option"

text \<open>
  \<open>throttle s estimatedTokens t late\<close>: the call is made at time \<open>t\<close>; \<open>late\<close>
  gives the lateness of the daily, the request and the token timer.
\<close>

definition throttle :: "throttler \<Rightarrow> nat \<Rightarrow> int \<Rightarrow> nat \<times> nat \<times> nat \<Rightarrow> throttle_run" where
  "throttle s estimatedTokens t late =
     (let s1 = checkDailyReset t s;
          dailyHit = dailyRequests s1 \<ge> maxDailyRequests s1;
          timeToReset = dailyResetTime s1 - t;
          t1 = (if dailyHit then fires t (Ms timeToReset) (fst late) else t);
          s2 = (if dailyHit then s1\<lparr>dailyRequests := 0, dailyResetTime := nextMidnight t1\<rparr> else s1);
          now = t1;
          oneMinuteAgo = now - 60 * 1000;
          s3 = s2\<lparr>requestQueue := filter (\<lambda>timestamp. timestamp > oneMinuteAgo) (requestQueue s2),
                  tokenQueue := filter (\<lambda>timestamp. timestamp > oneMinuteAgo) (tokenQueue s2)\<rparr>;
          requestHit = length (requestQueue s3) \<ge> requestsPerMinute s3;
          timeToWait = (case requestQueue s3 of
                          [] \<Rightarrow> NaN
                        | oldestRequest # _ \<Rightarrow> Ms (60 * 1000 - (now - oldestRequest)));
          t2 = (if requestHit then fires now timeToWait (fst (snd late)) else now);
          currentTokensThisMinute = length (tokenQueue s3);
          tokenHit = currentTokensThisMinute + estimatedTokens > tokensPerMinute s3;
          t3 = (if tokenHit then fires t2 (Ms (60 * 1000)) (snd (snd late)) else t2)
      in \<lparr>after = s3, resolved = t3, checked = now,
          dailySleep = (if dailyHit then Some (Ms timeToReset) else None),
          requestSleep = (if requestHit then Some timeToWait else None),
          tokenSleep = (if tokenHit then Some (Ms (60 * 1000)) else None)\<rparr>)"

text \<open>\<open>recordApiCall(tokenCount)\<close>, run at time \<open>now\<close>.\<close>

definition recordApiCall :: "nat \<Rightarrow> int \<Rightarrow> throttler \<Rightarrow> throttler" where
  "recordApiCall tokenCount now s =
     s\<lparr>requestQueue := requestQueue s @ [now],
       tokenQueue := tokenQueue s @ replicate tokenCount now,
       dailyRequests := dailyRequests s + 1\<rparr>"

text \<open>
  A sequence of \<open>throttle\<close> / \<open>recordApiCall\<close> pairs on one throttler.  Each pair
  says how long after the previous event \<open>throttle\<close> is called, with what estimate and
  timer lateness, how long after it resolves \<open>recordApiCall\<close> is called, and with
  what token count.  The run keeps the throttler, the clock, and the list of all
  timestamps that \<open>recordApiCall\<close> has recorded (the queue itself forgets old ones).
\<close>

record call =
  idle :: nat
  estimate :: nat
  lateness :: "nat \<times> nat \<times> nat"
  duration :: nat
  used :: nat

record run =
  thr :: throttler
  clock :: int
  recorded :: "int list"







section \<open>Properties of the retry loop\<close>

lemma retry_loop_succeeds:
  assumes "\<forall>j. a \<le> j \<and> j < k \<longrightarrow> isl (gen i j (createChunkSummaryPrompt c))"
    and "gen i k (createChunkSummaryPrompt c) = Inr s"
    and "a \<le> k" and "k < m"
  shows "outcome (retry_loop gen m c i a le sl) = Inr s
       \<and> attempts (retry_loop gen m c i a le sl) = k + 1"
  using assms
proof (induction "k - a" arbitrary: a le sl)
  case 0
  then have "a = k" by simp
  with 0 show ?case by (simp add: retry_loop.simps)
next
  case (Suc d)
  then have lt: "a < k" by simp
  with Suc.prems have "isl (gen i a (createChunkSummaryPrompt c))" by simp
  then obtain e where e: "gen i a (createChunkSummaryPrompt c) = Inl e"
    by (cases "gen i a (createChunkSummaryPrompt c)") auto
  have d: "d = k - (a + 1)" using Suc.hyps(2) by simp
  have "outcome (retry_loop gen m c i (a + 1) (Some (toError e)) (sl @ [2 ^ (a + 1) * 1000])) = Inr s
      \<and> attempts (retry_loop gen m c i (a + 1) (Some (toError e)) (sl @ [2 ^ (a + 1) * 1000])) = k + 1"
    using Suc.hyps(1) [OF d] Suc.prems lt by simp
  moreover have "a < m" using lt Suc.prems by simp
  ultimately show ?case
    using e by (subst (1 2) retry_loop.simps) simp
qed

lemma retry_loop_exhausts:
  assumes "\<forall>j. a \<le> j \<and> j < m \<longrightarrow> isl (gen i j (createChunkSummaryPrompt c))"
    and "a \<le> m"
  shows "attempts (retry_loop gen m c i a le sl) = m
       \<and> outcome (retry_loop gen m c i a le sl) =
           Inl (if a < m then toError (projl (gen i (m - 1) (createChunkSummaryPrompt c)))
                else (case le of Some e \<Rightarrow> e
                      | None \<Rightarrow> ErrorObj (''Failed to summarize chunk '' @ show_nat (i + 1)
                                  @ '' after '' @ show_nat m @ '' attempts'')))"
  using assms
proof (induction "m - a" arbitrary: a le sl)
  case 0
  then have "a = m" by simp
  then show ?case by (simp add: retry_loop.simps)
next
  case (Suc d)
  then have lt: "a < m" by simp
  with Suc.prems have "isl (gen i a (createChunkSummaryPrompt c))" by simp
  then obtain e where e: "gen i a (createChunkSummaryPrompt c) = Inl e"
    by (cases "gen i a (createChunkSummaryPrompt c)") auto
  have d: "d = m - (a + 1)" using Suc.hyps(2) by simp
  let ?r = "retry_loop gen m c i (a + 1) (Some (toError e)) (sl @ [2 ^ (a + 1) * 1000])"
  have ih: "attempts ?r = m \<and> outcome ?r =
           Inl (if a + 1 < m then toError (projl (gen i (m - 1) (createChunkSummaryPrompt c)))
                else toError e)"
    using Suc.hyps(1) [OF d, of "Some (toError e)" "sl @ [2 ^ (a + 1) * 1000]"] Suc.prems lt
    by simp
  have step: "retry_loop gen m c i a le sl = ?r"
    using e lt by (subst retry_loop.simps) simp
  show ?case
  proof (cases "a + 1 < m")
    case True
    then show ?thesis using ih step lt by simp
  next
    case False
    then have "a = m - 1" using lt by simp
    then show ?thesis using ih step lt e False by simp
  qed
qed

text \<open>
  Claim C2.  With retry bound \<open>maxRetries\<close>: if the service fails on its first
  \<open>k < maxRetries\<close> calls and succeeds on the next one, exactly \<open>k + 1\<close> calls are
  made and the successful text is returned; if it fails on every call, exactly
  \<open>maxRetries\<close> calls are made and the value thrown is the error of the last call
  (as an \<open>Error\<close> object: unchanged when the service threw an \<open>Error\<close>, wrapped
  otherwise).
\<close>

theorem summarizeChunkWithRetry_attempts:
  fixes gen :: backend
  defines "run \<equiv> (\<lambda>maxRetries chunk chunkIndex. summarizeChunkWithRetry gen maxRetries chunk chunkIndex)"
  defines "call \<equiv> (\<lambda>chunk chunkIndex j. gen chunkIndex j (createChunkSummaryPrompt chunk))"
  shows "(k < maxRetries \<and> (\<forall>j < k. isl (call chunk chunkIndex j)) \<and> call chunk chunkIndex k = Inr s
            \<longrightarrow> attempts (run maxRetries chunk chunkIndex) = k + 1
              \<and> outcome (run maxRetries chunk chunkIndex) = Inr s)
       \<and> (0 < maxRetries \<and> (\<forall>j < maxRetries. call chunk chunkIndex j = Inl (err j))
            \<longrightarrow> attempts (run maxRetries chunk chunkIndex) = maxRetries
              \<and> outcome (run maxRetries chunk chunkIndex) = Inl (toError (err (maxRetries - 1)))
              \<and> (\<forall>msg. err (maxRetries - 1) = ErrorObj msg
                    \<longrightarrow> outcome (run maxRetries chunk chunkIndex) = Inl (err (maxRetries - 1))))"
proof (intro conjI impI)
  assume h: "k < maxRetries \<and> (\<forall>j < k. isl (call chunk chunkIndex j)) \<and> call chunk chunkIndex k = Inr s"
  have "outcome (retry_loop gen maxRetries chunk chunkIndex 0 None []) = Inr s
      \<and> attempts (retry_loop gen maxRetries chunk chunkIndex 0 None []) = k + 1"
    by (rule retry_loop_succeeds) (use h in \<open>auto simp: call_def\<close>)
  then show "attempts (run maxRetries chunk chunkIndex) = k + 1"
    and "outcome (run maxRetries chunk chunkIndex) = Inr s"
    by (simp_all add: run_def summarizeChunkWithRetry_def)
next
  assume h: "0 < maxRetries \<and> (\<forall>j < maxRetries. call chunk chunkIndex j = Inl (err j))"
  then have last: "gen chunkIndex (maxRetries - 1) (createChunkSummaryPrompt chunk) = Inl (err (maxRetries - 1))"
    by (simp add: call_def)
  have all: "\<forall>j. 0 \<le> j \<and> j < maxRetries \<longrightarrow> isl (gen chunkIndex j (createChunkSummaryPrompt chunk))"
    using h by (simp add: call_def)
  have r: "attempts (retry_loop gen maxRetries chunk chunkIndex 0 None []) = maxRetries
      \<and> outcome (retry_loop gen maxRetries chunk chunkIndex 0 None []) =
          Inl (toError (err (maxRetries - 1)))"
    using retry_loop_exhausts [where a = 0 and m = maxRetries and gen = gen and i = chunkIndex
        and c = chunk and le = None and sl = "[]"] all h last by simp
  then show "attempts (run maxRetries chunk chunkIndex) = maxRetries"
    and o: "outcome (run maxRetries chunk chunkIndex) = Inl (toError (err (maxRetries - 1)))"
    by (simp_all add: run_def summarizeChunkWithRetry_def)
  show "\<forall>msg. err (maxRetries - 1) = ErrorObj msg
          \<longrightarrow> outcome (run maxRetries chunk chunkIndex) = Inl (err (maxRetries - 1))"
    using o by auto
qed

theorem summarizeChunkWithRetry_attempts_witness:
  "attempts (summarizeChunkWithRetry (\<lambda>i k p. if k < 2 then Inl (NonError ''503'') else Inr ''ok'') 3 ''text'' 0) = 3
 \<and> outcome (summarizeChunkWithRetry (\<lambda>i k p. if k < 2 then Inl (NonError ''503'') else Inr ''ok'') 3 ''text'' 0) = Inr ''ok''
 \<and> attempts (summarizeChunkWithRetry (\<lambda>i k p. Inl (ErrorObj (if k = 2 then ''quota'' else ''busy''))) 3 ''text'' 0) = 3
 \<and> outcome (summarizeChunkWithRetry (\<lambda>i k p. Inl (ErrorObj (if k = 2 then ''quota'' else ''busy''))) 3 ''text'' 0)
     = Inl (ErrorObj ''quota'')"
  using summarizeChunkWithRetry_attempts [where k = 2 and maxRetries = 3 and chunk = "''text''" and chunkIndex = 0
      and gen = "\<lambda>i k p. if k < 2 then Inl (NonError ''503'') else Inr ''ok''" and s = "''ok''"
      and err = "\<lambda>j. NonError ''503''"]
    summarizeChunkWithRetry_attempts [where k = 0 and maxRetries = 3 and chunk = "''text''" and chunkIndex = 0
      and gen = "\<lambda>i k p. Inl (ErrorObj (if k = 2 then ''quota'' else ''busy''))" and s = "''ok''"
      and err = "\<lambda>j. ErrorObj (if j = 2 then ''quota'' else ''busy'')"]
  by simp

section \<open>Properties of the batched Map stage\<close>

lemma promise_all_map_Inr: "promise_all (map Inr vs) = Inr vs"
  by (induction vs) simp_all

lemma promise_all_Inr_D: "promise_all rs = Inr vs \<Longrightarrow> rs = map Inr vs"
proof (induction rs arbitrary: vs)
  case Nil
  then show ?case by simp
next
  case (Cons r rs)
  show ?case
  proof (cases r)
    case (Inl e)
    with Cons.prems show ?thesis by simp
  next
    case (Inr v)
    show ?thesis
    proof (cases "promise_all rs")
      case (Inl e)
      with Cons.prems Inr show ?thesis by simp
    next
      case r2: (Inr ws)
      have "rs = map Inr ws" using Cons.IH [OF r2] .
      moreover have "vs = v # ws" using Cons.prems Inr r2 by simp
      ultimately show ?thesis using Inr by simp
    qed
  qed
qed


lemma length_slice: "length (slice chunks i (i + w)) = min w (length chunks - i)"
  by (simp add: slice_def)

lemma batch_started:
  "map (\<lambda>batchIndex. i + batchIndex) [0..<length (slice chunks i (i + w))] = [i ..< min (length chunks) (i + w)]"
  by (rule nth_equalityI) (auto simp add: length_slice)

lemma batch_promises:
  "map (\<lambda>(chunk, batchIndex). outcome (summarizeChunkWithRetry gen mr chunk (i + batchIndex)))
       (zip (slice chunks i (i + w)) [0..<length (slice chunks i (i + w))])
   = map (task gen mr chunks) [i ..< min (length chunks) (i + w)]"
proof (rule nth_equalityI)
  show "length (map (\<lambda>(chunk, batchIndex). outcome (summarizeChunkWithRetry gen mr chunk (i + batchIndex)))
       (zip (slice chunks i (i + w)) [0..<length (slice chunks i (i + w))]))
     = length (map (task gen mr chunks) [i ..< min (length chunks) (i + w)])"
    by (auto simp add: length_slice)
next
  fix k
  assume "k < length (map (\<lambda>(chunk, batchIndex). outcome (summarizeChunkWithRetry gen mr chunk (i + batchIndex)))
       (zip (slice chunks i (i + w)) [0..<length (slice chunks i (i + w))]))"
  then have k: "k < w" "k < length chunks - i" by (simp_all add: length_slice)
  then have "slice chunks i (i + w) ! k = chunks ! (i + k)" by (simp add: slice_def)
  moreover have "[i ..< min (length chunks) (i + w)] ! k = i + k" using k by simp
  ultimately show "map (\<lambda>(chunk, batchIndex). outcome (summarizeChunkWithRetry gen mr chunk (i + batchIndex)))
       (zip (slice chunks i (i + w)) [0..<length (slice chunks i (i + w))]) ! k
     = map (task gen mr chunks) [i ..< min (length chunks) (i + w)] ! k"
    using k by (simp add: length_slice task_def)
qed


lemma upt_split_batch: "i < n \<Longrightarrow> [i ..< min n (i + w)] @ [i + w ..< n] = [i ..< n]"
proof (cases "i + w \<le> n")
  case True
  then have "[i ..< i + w] @ [i + w ..< n] = [i ..< n]"
    using upt_add_eq_append [of i "i + w" "n - (i + w)"] by simp
  then show ?thesis using True by (simp add: min_def)
next
  case False
  then show ?thesis by (simp add: min_def)
qed

lemma exec_loop_partial:
  assumes "exec_loop gen mr cs w i acc st = Some r"
  shows "\<forall>ss. summaries r = Inr ss \<longrightarrow>
           map Inr ss = map Inr acc @ map (task gen mr cs) [i ..< length cs]"
proof (rule exec_loop.raw_induct [OF _ assms, where P = "\<lambda>gen mr cs w i acc st r. \<forall>ss. summaries r = Inr ss \<longrightarrow>
           map Inr ss = map Inr acc @ map (task gen mr cs) [i ..< length cs]"])
  fix f :: "backend \<Rightarrow> nat \<Rightarrow> string list \<Rightarrow> nat \<Rightarrow> nat \<Rightarrow> string list \<Rightarrow> nat list list \<Rightarrow> map_run option"
  fix gen mr cs w i acc st r
  assume IH: "\<And>gen mr cs w i acc st y. f gen mr cs w i acc st = Some y \<Longrightarrow>
           \<forall>ss. summaries y = Inr ss \<longrightarrow>
           map Inr ss = map Inr acc @ map (task gen mr cs) [i ..< length cs]"
  assume body0: "(if i < length cs then
        (let batch = slice cs i (i + w);
             batchPromises = map (\<lambda>(chunk, batchIndex).
                 outcome (summarizeChunkWithRetry gen mr chunk (i + batchIndex)))
               (zip batch [0..<length batch]);
             started' = st @ [map (\<lambda>batchIndex. i + batchIndex) [0..<length batch]]
         in case promise_all batchPromises of
              Inl e \<Rightarrow> Some \<lparr>summaries = Inl e, batches = started'\<rparr>
            | Inr batchResults \<Rightarrow>
                f gen mr cs w (i + w) (acc @ batchResults) started')
      else Some \<lparr>summaries = Inr acc, batches = st\<rparr>) = Some r"
  show "\<forall>ss. summaries r = Inr ss \<longrightarrow>
           map Inr ss = map Inr acc @ map (task gen mr cs) [i ..< length cs]"
  proof (cases "i < length cs")
    case False
    with body0 show ?thesis by auto
  next
    case True
    let ?ps = "map (task gen mr cs) [i ..< min (length cs) (i + w)]"
    let ?st = "st @ [[i ..< min (length cs) (i + w)]]"
    have body: "(case promise_all ?ps of
              Inl e \<Rightarrow> Some \<lparr>summaries = Inl e, batches = ?st\<rparr>
            | Inr batchResults \<Rightarrow> f gen mr cs w (i + w) (acc @ batchResults) ?st) = Some r"
      using body0 True unfolding Let_def batch_promises batch_started by simp
    show ?thesis
    proof (cases "promise_all ?ps")
      case (Inl e)
      with body show ?thesis by auto
    next
      case (Inr rs)
      then have ps: "?ps = map Inr rs" by (rule promise_all_Inr_D)
      from body Inr have rec: "f gen mr cs w (i + w) (acc @ rs) ?st = Some r" by simp
      have ih: "\<forall>ss. summaries r = Inr ss \<longrightarrow>
           map Inr ss = map Inr (acc @ rs) @ map (task gen mr cs) [i + w ..< length cs]"
        using IH [OF rec] .
      show ?thesis
      proof (intro allI impI)
        fix ss assume "summaries r = Inr ss"
        with ih have "map Inr ss = map Inr acc @ (?ps @ map (task gen mr cs) [i + w ..< length cs])"
          by (simp add: ps)
        also have "?ps @ map (task gen mr cs) [i + w ..< length cs]
                 = map (task gen mr cs) ([i ..< min (length cs) (i + w)] @ [i + w ..< length cs])"
          by simp
        also have "\<dots> = map (task gen mr cs) [i ..< length cs]"
          using True by (simp only: upt_split_batch)
        finally show "map Inr ss = map Inr acc @ map (task gen mr cs) [i ..< length cs]" .
      qed
    qed
  qed
qed


lemma exec_loop_step:
  "i < length cs \<Longrightarrow>
   exec_loop gen mr cs w i acc st =
     (case promise_all (map (task gen mr cs) [i ..< min (length cs) (i + w)]) of
        Inl e \<Rightarrow> Some \<lparr>summaries = Inl e, batches = st @ [[i ..< min (length cs) (i + w)]]\<rparr>
      | Inr rs \<Rightarrow> exec_loop gen mr cs w (i + w) (acc @ rs) (st @ [[i ..< min (length cs) (i + w)]]))"
  by (subst exec_loop.simps) (simp add: Let_def batch_promises batch_started cong: sum.case_cong)

lemma exec_loop_done:
  "\<not> i < length cs \<Longrightarrow> exec_loop gen mr cs w i acc st = Some \<lparr>summaries = Inr acc, batches = st\<rparr>"
  by (subst exec_loop.simps) simp







text \<open>
  Claim C6.  When \<open>exec\<close> succeeds on a chunk array, the summary array it returns has
  the length of the chunk array, and its element at position \<open>i\<close> is the summary that
  \<open>summarizeChunkWithRetry\<close> produced for the chunk at position \<open>i\<close>.
\<close>

theorem exec_preserves_order:
  assumes "exec gen maxConcurrent maxRetries (Some chunks) = Some r"
    and "summaries r = Inr chunkSummaries"
  shows "length chunkSummaries = length chunks
       \<and> (\<forall>i < length chunks.
            outcome (summarizeChunkWithRetry gen maxRetries (chunks ! i) i) = Inr (chunkSummaries ! i))"
proof -
  have ne: "length chunks \<noteq> 0"
  proof
    assume "length chunks = 0"
    then have "r = \<lparr>summaries = Inl (ErrorObj ''No chunks available for summarization''), batches = []\<rparr>"
      using assms(1) by (simp add: exec_def)
    then show False using assms(2) by simp
  qed
  then have "exec_loop gen maxRetries chunks (actualConcurrency maxConcurrent (length chunks)) 0 [] [] = Some r"
    using assms(1) by (simp add: exec_def)
  from exec_loop_partial [OF this] assms(2)
  have eq: "map Inr chunkSummaries = map (task gen maxRetries chunks) [0 ..< length chunks]" by simp
  then have len: "length chunkSummaries = length chunks"
    by (metis length_map length_upt minus_nat.diff_0)
  have "\<forall>i < length chunks. task gen maxRetries chunks i = Inr (chunkSummaries ! i)"
  proof (intro allI impI)
    fix i assume i: "i < length chunks"
    have "map Inr chunkSummaries ! i = map (task gen maxRetries chunks) [0 ..< length chunks] ! i"
      using eq by simp
    then show "task gen maxRetries chunks i = Inr (chunkSummaries ! i)" using i len by simp
  qed
  then show ?thesis using len by (simp add: task_def)
qed

theorem exec_preserves_order_witness:
  "exec (\<lambda>i k p. Inr (if i = 0 then ''first'' else ''second'')) 2 3 (Some [''a'', ''b''])
     = Some \<lparr>summaries = Inr [''first'', ''second''], batches = [[0, 1]]\<rparr>
   \<and> length [''first'', ''second''] = length [''a'', ''b'']
   \<and> outcome (summarizeChunkWithRetry (\<lambda>i k p. Inr (if i = 0 then ''first'' else ''second'')) 3 ''a'' 0)
        = Inr ''first''
   \<and> outcome (summarizeChunkWithRetry (\<lambda>i k p. Inr (if i = 0 then ''first'' else ''second'')) 3 ''b'' 1)
        = Inr ''second''"
proof -
  have e: "exec (\<lambda>i k p. Inr (if i = 0 then ''first'' else ''second'')) 2 3 (Some [''a'', ''b''])
     = Some \<lparr>summaries = Inr [''first'', ''second''], batches = [[0, 1]]\<rparr>"
    by (simp add: exec_def actualConcurrency_def exec_loop_step exec_loop_done task_def
        summarizeChunkWithRetry_def retry_loop.simps upt_rec)
  show ?thesis
    using e exec_preserves_order [OF e, of "[''first'', ''second'']"] by (simp add: All_less_Suc2 numeral_2_eq_2)
qed

section \<open>Properties of the sentence packer\<close>

lemma join_append:
  "xs \<noteq> [] \<Longrightarrow> ys \<noteq> [] \<Longrightarrow> join sep (xs @ ys) = join sep xs @ sep @ join sep ys"
proof (induction sep xs rule: join.induct)
  case (1 sep)
  then show ?case by simp
next
  case (2 sep x)
  then show ?case by (cases ys) simp_all
next
  case (3 sep x y ys')
  then show ?case by simp
qed

lemma join_groups:
  "[] \<notin> set groups \<Longrightarrow> join sep (map (join sep) groups) = join sep (concat groups)"
proof (induction groups)
  case Nil
  then show ?case by simp
next
  case (Cons g gs)
  show ?case
  proof (cases gs)
    case Nil
    then show ?thesis by simp
  next
    case (Cons h hs)
    then have ne: "concat gs \<noteq> []" using Cons.prems by auto
    have g: "g \<noteq> []" using Cons.prems by auto
    have "join sep (map (join sep) (g # gs)) = join sep g @ sep @ join sep (map (join sep) gs)"
      using Cons by simp
    also have "\<dots> = join sep g @ sep @ join sep (concat gs)"
      using Cons.IH Cons.prems by simp
    also have "\<dots> = join sep (g @ concat gs)"
      using join_append [OF g ne] by simp
    finally show ?thesis by simp
  qed
qed

text \<open>The loop state is a list of closed groups and one open group.\<close>

lemma pack_loop_groups:
  assumes "chunks = map (join space) groups" and "[] \<notin> set groups"
    and "pack_loop target (chunks, cur, n) sentences = (chunks', cur', n')"
  shows "\<exists>groups'. chunks' = map (join space) groups' \<and> [] \<notin> set groups'
           \<and> concat groups' @ cur' = concat groups @ cur @ sentences
           \<and> (sentences \<noteq> [] \<longrightarrow> cur' \<noteq> [])"
  using assms
proof (induction sentences arbitrary: chunks groups cur n)
  case Nil
  then show ?case by auto
next
  case (Cons x xs)
  show ?case
  proof (cases "int (n + estimateTokens x) > target \<and> length cur > 0")
    case True
    then have "pack_step target (chunks, cur, n) x = (chunks @ [join space cur], [x], estimateTokens x)"
      by (auto simp add: Let_def)
    then have step: "pack_loop target (chunks @ [join space cur], [x], estimateTokens x) xs = (chunks', cur', n')"
      using Cons.prems(3) by (simp del: pack_step.simps)
    have c: "chunks @ [join space cur] = map (join space) (groups @ [cur])"
      using Cons.prems(1) by simp
    have ne: "[] \<notin> set (groups @ [cur])" using Cons.prems(2) True by auto
    from Cons.IH [OF c ne step] obtain groups' where
      g: "chunks' = map (join space) groups'" "[] \<notin> set groups'"
         "concat groups' @ cur' = concat (groups @ [cur]) @ [x] @ xs"
         "xs \<noteq> [] \<longrightarrow> cur' \<noteq> []"
      by blast
    have "cur' \<noteq> []"
    proof (cases xs)
      case Nil
      then show ?thesis using step by auto
    next
      case (Cons a list)
      then show ?thesis using g(4) by simp
    qed
    then show ?thesis using g by auto
  next
    case False
    then have "pack_step target (chunks, cur, n) x = (chunks, cur @ [x], n + estimateTokens x)"
      by (auto simp add: Let_def)
    then have step: "pack_loop target (chunks, cur @ [x], n + estimateTokens x) xs = (chunks', cur', n')"
      using Cons.prems(3) by (simp del: pack_step.simps)
    from Cons.IH [OF Cons.prems(1) Cons.prems(2) step] obtain groups' where
      g: "chunks' = map (join space) groups'" "[] \<notin> set groups'"
         "concat groups' @ cur' = concat groups @ (cur @ [x]) @ xs"
         "xs \<noteq> [] \<longrightarrow> cur' \<noteq> []"
      by blast
    have "cur' \<noteq> []"
    proof (cases xs)
      case Nil
      then show ?thesis using step by auto
    next
      case (Cons a list)
      then show ?thesis using g(4) by simp
    qed
    then show ?thesis using g by auto
  qed
qed

lemma createChunksFromSentences_groups:
  "\<exists>groups. createChunksFromSentences sentences m = map (join space) groups
      \<and> [] \<notin> set groups \<and> concat groups = sentences"
proof -
  obtain chunks cur n where r:
    "pack_loop (forcedChunkSize sentences m) ([], [], 0) sentences = (chunks, cur, n)"
    by (cases "pack_loop (forcedChunkSize sentences m) ([], [], 0) sentences") auto
  have "[] = map (join space) []" by simp
  from pack_loop_groups [OF this _ r] obtain groups where
    g: "chunks = map (join space) groups" "[] \<notin> set groups"
       "concat groups @ cur = sentences" by auto
  show ?thesis
  proof (cases "cur = []")
    case True
    then show ?thesis using r g by (auto simp: createChunksFromSentences_def)
  next
    case False
    then have "createChunksFromSentences sentences m = map (join space) (groups @ [cur])"
      using r g by (simp add: createChunksFromSentences_def)
    moreover have "[] \<notin> set (groups @ [cur])" using g False by auto
    moreover have "concat (groups @ [cur]) = sentences" using g by simp
    ultimately show ?thesis by blast
  qed
qed

text \<open>
  Claim C10.  For every array of sentences and every token target, joining the chunks
  returned by \<open>createChunksFromSentences\<close> with single spaces gives exactly the
  sentences joined with single spaces: the chunks are the joins of consecutive non-empty
  groups of sentences whose concatenation is the input, so every sentence occurs once,
  in its place.
\<close>

theorem createChunksFromSentences_preserves_content:
  "join space (createChunksFromSentences sentences maxTokensPerChunk) = join space sentences
   \<and> (\<exists>groups. concat groups = sentences \<and> [] \<notin> set groups
         \<and> createChunksFromSentences sentences maxTokensPerChunk = map (join space) groups)"
proof -
  from createChunksFromSentences_groups [of sentences maxTokensPerChunk]
  obtain groups where g: "createChunksFromSentences sentences maxTokensPerChunk = map (join space) groups"
    "[] \<notin> set groups" "concat groups = sentences" by blast
  then have "join space (createChunksFromSentences sentences maxTokensPerChunk) = join space sentences"
    using join_groups [OF g(2), of space] by simp
  then show ?thesis using g by blast
qed

section \<open>Properties of the validator\<close>

lemma split_runs_nonempty: "split_runs look C prev cur s \<noteq> []"
  by (induction look C prev cur s rule: split_runs.induct) auto






section \<open>Properties of the throttler\<close>

lemma checkDailyReset_fields [simp]:
  "requestQueue (checkDailyReset t s) = requestQueue s"
  "tokenQueue (checkDailyReset t s) = tokenQueue s"
  "requestsPerMinute (checkDailyReset t s) = requestsPerMinute s"
  "tokensPerMinute (checkDailyReset t s) = tokensPerMinute s"
  "maxDailyRequests (checkDailyReset t s) = maxDailyRequests s"
  by (simp_all add: checkDailyReset_def)

lemma le_fires: "x \<le> y \<Longrightarrow> x \<le> fires y d k"
  by (cases d) (simp_all add: fires_def)





lemma throttle_tokenQueue:
  "tokenQueue (after (throttle s e t l))
     = filter (\<lambda>x. checked (throttle s e t l) - 60 * 1000 < x) (tokenQueue s)"
  by (simp add: throttle_def Let_def)




lemma throttle_tokenSleep_eq:
  "tokenSleep (throttle s e t l) =
     (if tokensPerMinute s < length (tokenQueue (after (throttle s e t l))) + e
      then Some (Ms (60 * 1000)) else None)"
  by (simp add: throttle_def Let_def)

lemma throttle_token_wait:
  assumes "tokensPerMinute s < length (tokenQueue (after (throttle s e t l))) + e"
  shows "checked (throttle s e t l) + 60 * 1000 \<le> resolved (throttle s e t l)"
proof -
  have b: "\<And>now x k. now \<le> x \<Longrightarrow> now + 60000 \<le> fires x (Ms 60000) k"
    by (simp add: fires_def)
  show ?thesis
    using assms by (auto simp add: throttle_def Let_def le_fires b split: if_splits)
qed

text \<open>
  Claim C7.  Whenever \<open>throttle\<close> finds that the tokens recorded in the 60 seconds
  before its check plus the estimate exceed \<open>tokensPerMinute\<close>, the delay of its token
  sleep is the constant 60000 ms, whatever the queue holds, and it resolves no earlier
  than 60 seconds after the check.
\<close>

theorem throttle_token_sleep:
  assumes "length (filter (\<lambda>timestamp. timestamp > checked (throttle s estimatedTokens t late) - 60 * 1000)
                     (tokenQueue s)) + estimatedTokens > tokensPerMinute s"
  shows "tokenSleep (throttle s estimatedTokens t late) = Some (Ms (60 * 1000))
       \<and> checked (throttle s estimatedTokens t late) + 60 * 1000 \<le> resolved (throttle s estimatedTokens t late)"
proof -
  have hit: "tokensPerMinute s < length (tokenQueue (after (throttle s estimatedTokens t late))) + estimatedTokens"
    using assms by (simp only: throttle_tokenQueue)
  show ?thesis
    using hit throttle_token_wait [OF hit] by (simp only: throttle_tokenSleep_eq if_True simp_thms)
qed


theorem throttle_token_sleep_witness:
  "tokenSleep (throttle (recordApiCall 8 1000 (new_throttler 15 10 1500 0)) 5 2000 (0, 0, 0)) = Some (Ms (60 * 1000))
   \<and> resolved (throttle (recordApiCall 8 1000 (new_throttler 15 10 1500 0)) 5 2000 (0, 0, 0)) = 62000"
proof -
  have c: "checked (throttle (recordApiCall 8 1000 (new_throttler 15 10 1500 0)) 5 2000 (0, 0, 0)) = 2000"
    by (simp add: throttle_def Let_def recordApiCall_def new_throttler_def checkDailyReset_def nextMidnight_def)
  have q: "tokenQueue (recordApiCall 8 1000 (new_throttler 15 10 1500 0)) = replicate 8 1000"
    by (simp add: recordApiCall_def new_throttler_def)
  have h: "length (filter (\<lambda>timestamp. timestamp > checked (throttle (recordApiCall 8 1000 (new_throttler 15 10 1500 0)) 5 2000 (0, 0, 0)) - 60 * 1000)
                     (tokenQueue (recordApiCall 8 1000 (new_throttler 15 10 1500 0)))) + 5
           > tokensPerMinute (recordApiCall 8 1000 (new_throttler 15 10 1500 0))"
    unfolding c q by (simp add: recordApiCall_def new_throttler_def)
  have r: "resolved (throttle (recordApiCall 8 1000 (new_throttler 15 10 1500 0)) 5 2000 (0, 0, 0)) = 62000"
    by (simp add: throttle_def Let_def recordApiCall_def new_throttler_def checkDailyReset_def
        nextMidnight_def fires_def)
  show ?thesis using throttle_token_sleep [OF h] r by simp
qed


lemma recordApiCall_fields [simp]:
  "requestQueue (recordApiCall n t s) = requestQueue s @ [t]"
  "dailyRequests (recordApiCall n t s) = dailyRequests s + 1"
  "requestsPerMinute (recordApiCall n t s) = requestsPerMinute s"
  "tokensPerMinute (recordApiCall n t s) = tokensPerMinute s"
  "maxDailyRequests (recordApiCall n t s) = maxDailyRequests s"
  by (simp_all add: recordApiCall_def)







section \<open>Properties of the sentence splitter\<close>

lemma regex_Hi: "regex_sentences (js ''Hi.'') = [js ''Hi.'']"
  by (simp add: js_def regex_sentences.simps match_sentence_def isTerminator_def)

lemma simple_Hi: "simple_split (js ''Hi.'') = [js ''Hi.'']"
  by (simp add: js_def simple_split_def isSpace_def)

lemma line_Hi: "line_split (js ''Hi.'') = [js ''Hi.'']"
  by (simp add: js_def line_split_def)

lemma trim_Hi: "trim (js ''Hi.'') = js ''Hi.''"
  by (simp add: js_def trim_def isSpace_def)

lemma force_Hi: "forceSplitByCharCount (js ''Hi.'') 800 = Some [js ''Hi.'']"
  by (simp add: forceSplitByCharCount_def force_loop.simps js_def substring_def trim_def isSpace_def)

text \<open>
  Claim C9.  Every sentence returned by \<open>splitIntoSentences\<close> should have at least 5
  characters after trimming.  The forced split is returned before the filter that
  drops shorter fragments is reached: on the text \<open>Hi.\<close> the first three tiers find
  one sentence each, the forced split returns the text as its only piece, and that piece
  has 3 characters.
\<close>

theorem splitIntoSentences_short_fragment:
  "splitIntoSentences (js ''Hi.'') = Some [js ''Hi.''] \<and> length (trim (js ''Hi.'')) = 3"
proof -
  have l: "length (js ''Hi.'') = 3" by (simp add: js_def)
  show ?thesis
    by (simp add: splitIntoSentences_def regex_Hi simple_Hi line_Hi trim_Hi force_Hi l Let_def)
qed

section \<open>Properties of the chunking strategies\<close>

lemma search_down_bounds:
  "search_down P i lowest startIdx = Some b \<Longrightarrow> startIdx < b \<and> b \<le> i + 1"
proof (induction P i lowest startIdx rule: search_down.induct)
  case (1 P i lowest startIdx)
  show ?case
  proof (cases "int i \<ge> lowest \<and> i > startIdx")
    case False
    then show ?thesis using "1.prems" by (subst (asm) search_down.simps) (simp split: if_splits)
  next
    case True
    show ?thesis
    proof (cases "P i")
      case p: True
      then have "b = i + 1" using "1.prems" True by (subst (asm) search_down.simps) simp
      then show ?thesis using True by simp
    next
      case p: False
      then have "search_down P (i - 1) lowest startIdx = Some b"
        using "1.prems" True by (subst (asm) search_down.simps) simp
      from "1.IH" [OF True p this] show ?thesis by auto
    qed
  qed
qed

lemma force_loop_total:
  assumes "0 < targetLength"
  shows "\<exists>r. force_loop text targetLength startIdx chunks = Some r"
proof (induction "length text - startIdx" arbitrary: startIdx chunks rule: less_induct)
  case less
  show ?case
  proof (cases "startIdx < length text")
    case False
    then show ?thesis by (subst force_loop.simps) simp
  next
    case True
    define endIdx0 where "endIdx0 = min (startIdx + targetLength) (length text)"
    define searchRange where "searchRange = nat \<lfloor>rat_of_nat targetLength * 0.2\<rfloor>"
    define breakPoint where "breakPoint =
       (case search_down (\<lambda>i. isTerminator (text ! i) \<and> (i + 1 \<ge> length text \<or> isSpace (text ! (i + 1))))
               endIdx0 (int endIdx0 - int searchRange) startIdx of
          Some b \<Rightarrow> Some b
        | None \<Rightarrow> search_down (\<lambda>i. isSpace (text ! i)) endIdx0 (int endIdx0 - int searchRange) startIdx)"
    define endIdx where "endIdx =
       (if endIdx0 < length text then (case breakPoint of Some b \<Rightarrow> b | None \<Rightarrow> endIdx0) else endIdx0)"
    have e0: "startIdx < endIdx0" using True assms by (simp add: endIdx0_def)
    have bp: "\<And>b. breakPoint = Some b \<Longrightarrow> startIdx < b"
      unfolding breakPoint_def using search_down_bounds by (auto split: option.splits)
    have adv: "startIdx < endIdx"
      unfolding endIdx_def using e0 bp by (auto split: option.splits)
    have step: "force_loop text targetLength startIdx chunks
              = force_loop text targetLength endIdx (chunks @ [trim (substring text startIdx endIdx)])"
      by (subst force_loop.simps,
          unfold Let_def endIdx_def breakPoint_def searchRange_def endIdx0_def,
          simp only: True if_True)
    have "length text - endIdx < length text - startIdx" using adv True by simp
    from less [OF this] show ?thesis by (simp add: step)
  qed
qed

lemma splitIntoSentences_total: "\<exists>sentences. splitIntoSentences text = Some sentences"
proof -
  obtain r where "forceSplitByCharCount text 800 = Some r"
    using force_loop_total [of 800 "text" 0 "[]"] by (auto simp: forceSplitByCharCount_def)
  then show ?thesis by (simp add: splitIntoSentences_def Let_def)
qed

lemma regex_seven: "regex_sentences seven = seven_sentences"
  by (simp add: seven_def seven_sentences_def js_def regex_sentences.simps match_sentence_def Let_def
      isTerminator_def isQuote_def isSpace_def)

lemma split_seven: "splitIntoSentences seven = Some seven_sentences"
proof -
  have "filter (\<lambda>s. length (trim s) \<ge> 5) seven_sentences = seven_sentences"
    by (simp add: seven_sentences_def js_def trim_def isSpace_def)
  then show ?thesis
    by (simp add: splitIntoSentences_def regex_seven Let_def) (simp add: seven_sentences_def)
qed

lemma estimateTokens_div: "estimateTokens s = (length s + 3) div 4"
proof -
  have "\<lceil>rat_of_nat (length s) / 4\<rceil> = \<lceil>rat_of_int (int (length s)) / rat_of_int 4\<rceil>" by simp
  also have "\<dots> = - (- int (length s) div 4)" by (rule ceiling_divide_eq_div)
  also have "\<dots> = int ((length s + 3) div 4)" by linarith
  finally show ?thesis by (simp add: estimateTokens_def)
qed

lemma tokens_seven: "estimateTokens seven = 22"
  by (simp add: estimateTokens_div seven_def js_def)



lemma rf_seven_1000: "rat_of_nat 22 / (of_int 1000 * 0.9) < 1.5"
  by simp


lemma sublist_prepend: "sublist x ys \<Longrightarrow> sublist x (ps @ ys)"
  unfolding sublist_def by (metis append.assoc)

lemma sublist_join: "x \<in> set xs \<Longrightarrow> sublist x (join sep xs)"
proof (induction sep xs rule: join.induct)
  case (1 sep)
  then show ?case by simp
next
  case (2 sep y)
  then show ?case by simp
next
  case (3 sep y z zs)
  show ?case
  proof (cases "x = y")
    case True
    have "sublist y ([] @ y @ (sep @ join sep (z # zs)))" by (rule sublist_appendI)
    then show ?thesis using True by simp
  next
    case False
    then have "sublist x (join sep (z # zs))" using 3 by simp
    then have "sublist x ((y @ sep) @ join sep (z # zs))" by (rule sublist_prepend)
    then show ?thesis by simp
  qed
qed

lemma trim_eq_Nil: "trim s = [] \<longleftrightarrow> (\<forall>c \<in> set s. isSpace c)"
proof
  assume "trim s = []"
  then have "dropWhile isSpace (rev (dropWhile isSpace s)) = []" by (simp add: trim_def)
  then have all: "\<forall>c \<in> set (dropWhile isSpace s). isSpace c" by (simp add: dropWhile_eq_Nil_conv)
  have "dropWhile isSpace s = []"
  proof (rule ccontr)
    assume ne: "dropWhile isSpace s \<noteq> []"
    then have "\<not> isSpace (hd (dropWhile isSpace s))" by (rule hd_dropWhile)
    moreover have "hd (dropWhile isSpace s) \<in> set (dropWhile isSpace s)" using ne by simp
    ultimately show False using all by blast
  qed
  then show "\<forall>c \<in> set s. isSpace c" by (auto simp: dropWhile_eq_Nil_conv)
next
  assume "\<forall>c \<in> set s. isSpace c"
  then have "dropWhile isSpace s = []" by (auto simp: dropWhile_eq_Nil_conv)
  then show "trim s = []" unfolding trim_def by (simp only: rev.simps dropWhile.simps)
qed

lemma trim_sublist: "sublist s c \<Longrightarrow> trim s \<noteq> [] \<Longrightarrow> trim c \<noteq> []"
proof -
  assume sub: "sublist s c" and ne: "trim s \<noteq> []"
  then obtain ch where "ch \<in> set s" "\<not> isSpace ch" by (auto simp: trim_eq_Nil)
  moreover have "set s \<subseteq> set c" using sub by (auto simp: sublist_def)
  ultimately show ?thesis by (auto simp: trim_eq_Nil)
qed

lemma slice_nth_mem: "i \<le> j \<Longrightarrow> j < e \<Longrightarrow> e \<le> length xs \<Longrightarrow> xs ! j \<in> set (slice xs i e)"
proof -
  assume a: "i \<le> j" "j < e" "e \<le> length xs"
  have "slice xs i e ! (j - i) = xs ! j" using a by (simp add: slice_def)
  moreover have "j - i < length (slice xs i e)" using a by (simp add: slice_def)
  ultimately show ?thesis by (metis nth_mem)
qed

lemma larger_loop_covers:
  "i \<le> j \<Longrightarrow> j < length sentences \<Longrightarrow> trim (sentences ! j) \<noteq> []
     \<Longrightarrow> \<exists>c \<in> set (larger_loop sentences perChunk i). sublist (sentences ! j) c"
proof (induction sentences perChunk i rule: larger_loop.induct)
  case (1 sentences perChunk i)
  define w where "w = max 5 perChunk"
  define ov where "ov = nat \<lceil>rat_of_nat w * 0.15\<rceil>"
  define e where "e = min (i + w) (length sentences)"
  define chunk where "chunk = join space (slice sentences i e)"
  have i: "i < length sentences" using "1.prems" by simp
  have unfold: "larger_loop sentences perChunk i =
      (if length (trim chunk) > 0 then [chunk] else [])
      @ (if e \<ge> length sentences then [] else larger_loop sentences perChunk (i + (w - ov)))"
    using i by (subst larger_loop.simps) (simp add: Let_def w_def ov_def e_def chunk_def)
  show ?case
  proof (cases "j < e")
    case True
    have "sentences ! j \<in> set (slice sentences i e)"
      using "1.prems"(1) True by (intro slice_nth_mem) (simp_all add: e_def)
    then have sub: "sublist (sentences ! j) chunk" unfolding chunk_def by (rule sublist_join)
    then have "trim chunk \<noteq> []" using "1.prems"(3) by (rule trim_sublist)
    then show ?thesis using sub by (auto simp: unfold)
  next
    case False
    then have e: "e = i + w" "\<not> length sentences \<le> e" using "1.prems"(2) by (auto simp: e_def)
    have "i + (w - ov) \<le> j" using False e by simp
    from "1.IH" [OF w_def ov_def i e_def chunk_def e(2) this "1.prems"(2,3)]
    show ?thesis using e by (auto simp: unfold)
  qed
qed

lemma createLargerContextChunks_covers:
  assumes "s \<in> set sentences" and "trim s \<noteq> []"
  shows "\<exists>c \<in> set (createLargerContextChunks sentences targetSize minChunks). sublist s c"
proof (cases "length sentences \<le> 10")
  case True
  then show ?thesis using assms(1) by (simp add: createLargerContextChunks_def sublist_join)
next
  case False
  obtain j where j: "j < length sentences" "sentences ! j = s"
    using assms(1) by (auto simp: in_set_conv_nth)
  then have "\<And>pc. \<exists>c \<in> set (larger_loop sentences pc 0). sublist s c"
    using larger_loop_covers [of 0 j sentences] assms(2) by auto
  then show ?thesis using False by (simp add: createLargerContextChunks_def Let_def)
qed

lemma createForcedChunks_covers:
  assumes "s \<in> set sentences" and "trim s \<noteq> []"
  shows "\<exists>c \<in> set (createForcedChunks sentences targetSize). sublist s c"
  using createLargerContextChunks_covers [OF assms]
  by (simp add: createForcedChunks_def Let_def split: option.splits)

lemma below_1_5_iff:
  "maxLength \<noteq> 0 \<Longrightarrow>
   below_1_5 (reductionFactor tt maxLength) \<longleftrightarrow> rat_of_nat tt / (of_int maxLength * 0.9) < 1.5"
proof -
  assume "maxLength \<noteq> 0"
  then have nz: "(rat_of_int maxLength * 0.9 = 0) = False" by simp
  have q: "\<And>q::rat. (max 1 q < 1.5) = (q < 1.5)" by (auto simp: max_def)
  show ?thesis
    by (simp only: below_1_5_def reductionFactor_def Let_def nz if_False option.case q)
qed

text \<open>
  Claim C3.  On a transcript that splits into more than one sentence: the uniform and
  the bookend strategy compute \<open>estimateTokens(transcript) / (maxLength * 0.9)\<close> and,
  when it is below 1.5, sample nothing: they return the sentences of the splitter packed
  by \<open>createChunksFromSentences\<close>, whose chunks joined give the sentences joined.  The
  intelligent strategy does not look at \<open>maxLength\<close>: it samples nothing exactly when
  the token estimate is at most 3000, and then every sentence that is not blank occurs in
  one of the chunks it returns; above 3000 it packs the sentences it has sampled.
\<close>

theorem chunkTranscript_no_sampling:
  assumes "splitIntoSentences transcript = Some sentences" and "length sentences > 1"
  shows "(maxLength \<noteq> 0 \<and> rat_of_nat (estimateTokens transcript) / (of_int maxLength * 0.9) < 1.5 \<longrightarrow>
            uniform_chunkTranscript transcript maxLength = Some (createChunksFromSentences sentences maxLength)
          \<and> bookend_chunkTranscript transcript maxLength = Some (createChunksFromSentences sentences maxLength)
          \<and> join space (createChunksFromSentences sentences maxLength) = join space sentences)
       \<and> (estimateTokens transcript \<le> 3000 \<longrightarrow>
            intelligent_chunkTranscript transcript maxLength
              = Some (createForcedChunks sentences (targetChunkSize (estimateTokens transcript)))
          \<and> (\<forall>s \<in> set sentences. trim s \<noteq> [] \<longrightarrow>
                (\<exists>c \<in> set (createForcedChunks sentences (targetChunkSize (estimateTokens transcript))).
                    sublist s c)))
       \<and> (estimateTokens transcript > 3000 \<longrightarrow>
            intelligent_chunkTranscript transcript maxLength
              = Some (createForcedChunks (intelligent_sample sentences (estimateTokens transcript))
                        (targetChunkSize (estimateTokens transcript))))"
proof (intro conjI impI)
  assume h: "maxLength \<noteq> 0 \<and> rat_of_nat (estimateTokens transcript) / (of_int maxLength * 0.9) < 1.5"
  then have b: "below_1_5 (reductionFactor (estimateTokens transcript) maxLength)"
    by (simp add: below_1_5_iff)
  show "uniform_chunkTranscript transcript maxLength = Some (createChunksFromSentences sentences maxLength)"
    using assms b by (simp add: uniform_chunkTranscript_def Let_def)
  show "bookend_chunkTranscript transcript maxLength = Some (createChunksFromSentences sentences maxLength)"
    using assms b by (simp add: bookend_chunkTranscript_def Let_def)
  from createChunksFromSentences_groups [of sentences maxLength]
  obtain groups where g: "createChunksFromSentences sentences maxLength = map (join space) groups"
    "[] \<notin> set groups" "concat groups = sentences" by blast
  show "join space (createChunksFromSentences sentences maxLength) = join space sentences"
    using join_groups [OF g(2), of space] g by simp
next
  assume "estimateTokens transcript \<le> 3000"
  then show "intelligent_chunkTranscript transcript maxLength
              = Some (createForcedChunks sentences (targetChunkSize (estimateTokens transcript)))"
    using assms by (simp add: intelligent_chunkTranscript_def Let_def)
next
  show "\<forall>s \<in> set sentences. trim s \<noteq> [] \<longrightarrow>
          (\<exists>c \<in> set (createForcedChunks sentences (targetChunkSize (estimateTokens transcript))).
              sublist s c)"
    using createForcedChunks_covers by blast
next
  assume "estimateTokens transcript > 3000"
  then show "intelligent_chunkTranscript transcript maxLength
              = Some (createForcedChunks (intelligent_sample sentences (estimateTokens transcript))
                        (targetChunkSize (estimateTokens transcript)))"
    using assms by (simp add: intelligent_chunkTranscript_def Let_def)
qed




section \<open>The intelligent strategy on the long transcript\<close>

lemma match_block:
  assumes w: "\<forall>c \<in> set w. \<not> isTerminator c"
    and rest: "rest = [] \<or> (\<exists>r. rest = 0x20 # r)"
  shows "match_sentence ((0x20 # w @ [0x2E]) @ rest) = Some (0x20 # w @ [0x2E], rest)"
proof -
  have sp: "\<not> isTerminator 0x20" and dot: "isTerminator 0x2E"
    by (simp_all add: isTerminator_def)
  have body: "takeWhile (\<lambda>c. \<not> isTerminator c) ((0x20 # w @ [0x2E]) @ rest) = 0x20 # w"
    using w sp dot by (simp add: takeWhile_append2)
  have s1: "dropWhile (\<lambda>c. \<not> isTerminator c) ((0x20 # w @ [0x2E]) @ rest) = 0x2E # rest"
    using w sp dot by (simp add: dropWhile_append2)
  have marks: "takeWhile isTerminator (0x2E # rest) = [0x2E]"
    using rest sp dot by auto
  have s2: "dropWhile isTerminator (0x2E # rest) = rest"
    using rest sp dot by auto
  have q: "\<not> isQuote 0x20" by (simp add: isQuote_def)
  have s: "isSpace 0x20" by (simp add: isSpace_def)
  show ?thesis
    unfolding match_sentence_def Let_def body s1 marks s2
    using rest q s by auto
qed

lemma regex_blocks:
  assumes "\<forall>b \<in> set bs. \<exists>w. b = 0x20 # w @ [0x2E] \<and> (\<forall>c \<in> set w. \<not> isTerminator c)"
  shows "regex_sentences (concat bs) = bs"
  using assms
proof (induction bs)
  case Nil
  then show ?case by (simp add: regex_sentences.simps)
next
  case (Cons b bs)
  then obtain w where b: "b = 0x20 # w @ [0x2E]" and w: "\<forall>c \<in> set w. \<not> isTerminator c" by auto
  have rest: "concat bs = [] \<or> (\<exists>r. concat bs = 0x20 # r)"
  proof (cases bs)
    case Nil
    then show ?thesis by simp
  next
    case (Cons b' bs')
    then obtain w' where "b' = 0x20 # w' @ [0x2E]" using Cons.prems by auto
    then show ?thesis using Cons by simp
  qed
  have m: "match_sentence (concat (b # bs)) = Some (b, concat bs)"
    using match_block [OF w rest] by (simp add: b)
  have ne: "concat (b # bs) \<noteq> []" by (simp add: b)
  have "regex_sentences (concat (b # bs)) = b # regex_sentences (concat bs)"
    by (subst regex_sentences.simps) (simp only: ne m if_False option.case prod.case)
  then show ?case using Cons by simp
qed

lemma filler_block: "\<not> isTerminator c \<Longrightarrow>
  \<exists>w. filler k c = 0x20 # w @ [0x2E] \<and> (\<forall>d \<in> set w. \<not> isTerminator d)"
  by (auto simp: filler_def)

lemma wordy_block: "\<exists>w. wordy = 0x20 # w @ [0x2E] \<and> (\<forall>d \<in> set w. \<not> isTerminator d)"
proof -
  have "wordy = 0x20 # js ''x x x x x x x x x x'' @ [0x2E]" by (simp add: wordy_def js_def)
  moreover have "\<forall>d \<in> set (js ''x x x x x x x x x x''). \<not> isTerminator d"
    by (simp add: js_def isTerminator_def)
  ultimately show ?thesis by blast
qed

lemma set_long_sentences: "set long_sentences = {filler 600 0x78, filler 600 0x79, wordy}"
  by (auto simp: long_sentences_def)

lemma length_long_sentences: "length long_sentences = 31"
  by (simp add: long_sentences_def)

lemma regex_long: "regex_sentences long_transcript = long_sentences"
  unfolding long_transcript_def
proof (rule regex_blocks)
  have "\<not> isTerminator 0x78" "\<not> isTerminator 0x79" by (simp_all add: isTerminator_def)
  then show "\<forall>b \<in> set long_sentences. \<exists>w. b = 0x20 # w @ [0x2E] \<and> (\<forall>c \<in> set w. \<not> isTerminator c)"
    using filler_block wordy_block by (simp add: set_long_sentences)
qed

lemma trim_filler: "\<not> isSpace c \<Longrightarrow> 0 < k \<Longrightarrow> trim (filler k c) = replicate k c @ [0x2E]"
proof -
  assume c: "\<not> isSpace c" and k: "0 < k"
  obtain k' where k': "k = Suc k'" using k by (cases k) auto
  have s: "isSpace 0x20" and d: "\<not> isSpace 0x2E" by (simp_all add: isSpace_def)
  have "dropWhile isSpace (filler k c) = replicate k c @ [0x2E]"
    using c s by (simp add: filler_def k')
  moreover have "dropWhile isSpace (rev (replicate k c @ [0x2E])) = rev (replicate k c @ [0x2E])"
    using d by simp
  ultimately show ?thesis by (simp add: trim_def)
qed

lemma trim_long: "s \<in> set long_sentences \<Longrightarrow> 5 \<le> length (trim s)"
proof -
  assume "s \<in> set long_sentences"
  then consider "s = filler 600 0x78" | "s = filler 600 0x79" | "s = wordy"
    by (auto simp: set_long_sentences)
  then show ?thesis
  proof cases
    case 1
    then show ?thesis by (simp add: trim_filler isSpace_def)
  next
    case 2
    then show ?thesis by (simp add: trim_filler isSpace_def)
  next
    case 3
    then show ?thesis by (simp add: wordy_def js_def trim_def isSpace_def)
  qed
qed

lemma split_long: "splitIntoSentences long_transcript = Some long_sentences"
proof -
  have "filter (\<lambda>s. length (trim s) \<ge> 5) long_sentences = long_sentences"
    using trim_long by (simp add: filter_id_conv)
  then show ?thesis
    by (simp add: splitIntoSentences_def regex_long Let_def length_long_sentences)
qed

lemma length_filler: "length (filler k c) = k + 2"
  by (simp add: filler_def)

lemma length_wordy: "length wordy = 21"
  by (simp add: wordy_def js_def)

lemma length_long_transcript: "length long_transcript = 14014"
  by (simp add: long_transcript_def long_sentences_def length_concat length_filler length_wordy
      sum_list_replicate)

lemma tokens_long: "estimateTokens long_transcript = 3504"
  by (simp add: estimateTokens_div length_long_transcript)

text \<open>Sentences over the four units space, full stop, x and y.\<close>

lemma str_indexOf_None: "\<not> set k \<subseteq> set s \<Longrightarrow> str_indexOf s k = None"
proof (induction s)
  case Nil
  then show ?case by auto
next
  case (Cons c s)
  have "\<not> prefix k (c # s)"
  proof
    assume "prefix k (c # s)"
    then have "set k \<subseteq> set (c # s)" by (rule set_mono_prefix)
    then show False using Cons.prems by simp
  qed
  moreover have "\<not> set k \<subseteq> set s" using Cons.prems by auto
  ultimately show ?case using Cons.IH by simp
qed

lemma toLowerCase_plain:
  assumes "set s \<subseteq> {0x20, 0x2E, 0x78, 0x79}"
  shows "toLowerCase s = s"
  using assms unfolding toLowerCase_def
  by (induction s) (auto simp: lowerUnit_def)

lemma keywords_outside:
  "\<forall>k \<in> set importantKeywords. \<not> set (toLowerCase k) \<subseteq> {0x20, 0x2E, 0x78, 0x79}"
  by (simp add: importantKeywords_def js_def toLowerCase_def lowerUnit_def)

lemma sum_list_all_zero: "\<forall>x \<in> set xs. f x = (0::rat) \<Longrightarrow> sum_list (map f xs) = 0"
  by (induction xs) auto

lemma keywordScore_plain:
  assumes "set s \<subseteq> {0x20, 0x2E, 0x78, 0x79}"
  shows "sum_list (map (keywordScore s) importantKeywords) = 0"
proof -
  have "\<forall>k \<in> set importantKeywords. keywordScore s k = 0"
  proof
    fix k assume "k \<in> set importantKeywords"
    then have "\<not> set (toLowerCase k) \<subseteq> set s" using keywords_outside assms by blast
    then have "str_indexOf s (toLowerCase k) = None" by (rule str_indexOf_None)
    then show "keywordScore s k = 0" by (simp add: keywordScore_def)
  qed
  then show ?thesis by (rule sum_list_all_zero)
qed

lemma hasQuoted_plain: "\<forall>c \<in> set s. \<not> isQuote c \<Longrightarrow> \<not> hasQuoted s"
  by (induction s) auto

lemma scoreSentence_plain:
  assumes "set s \<subseteq> {0x20, 0x2E, 0x78, 0x79}"
  shows "scoreSentence n s i =
     \<lparr>sentence = s,
      score = (if rat_of_nat i < rat_of_nat n * 0.15 then 3
               else if rat_of_nat i > rat_of_nat n * 0.85 then 2.5
               else if rat_of_nat i > rat_of_nat n * 0.4 \<and> rat_of_nat i < rat_of_nat n * 0.6 then 1
               else 0)
              + (if length (split_whitespace s) > 8 \<and> length (split_whitespace s) < 30 then 1.5
                 else if length (split_whitespace s) \<ge> 30 \<and> length (split_whitespace s) < 60 then 1
                 else 0),
      index = i\<rparr>"
proof -
  have d: "\<not> list_ex isDigit s" using assms by (auto simp: list_ex_iff isDigit_def)
  have "\<forall>c \<in> set s. \<not> isQuote c" using assms by (auto simp: isQuote_def)
  then have q: "\<not> hasQuoted s" by (rule hasQuoted_plain)
  show ?thesis
    unfolding scoreSentence_def Let_def toLowerCase_plain [OF assms] keywordScore_plain [OF assms]
    using d q by simp
qed

lemma split_runs_replicate:
  "\<not> C c \<Longrightarrow>
   split_runs look C prev cur (replicate k c @ rest)
     = split_runs look C (if k = 0 then prev else Some c) (cur @ replicate k c) rest"
proof (induction k arbitrary: prev cur)
  case 0
  then show ?case by simp
next
  case (Suc k)
  have "split_runs look C prev cur (replicate (Suc k) c @ rest)
      = split_runs look C (Some c) (cur @ [c]) (replicate k c @ rest)"
    using Suc.prems by simp
  also have "\<dots> = split_runs look C (if k = 0 then Some c else Some c) ((cur @ [c]) @ replicate k c) rest"
    using Suc.prems by (rule Suc.IH)
  finally show ?case by simp
qed

lemma words_filler: "\<not> isSpace c \<Longrightarrow> 0 < k \<Longrightarrow> length (split_whitespace (filler k c)) = 2"
proof -
  assume c: "\<not> isSpace c" and k: "0 < k"
  obtain k' where k': "k = Suc k'" using k by (cases k) auto
  have s: "isSpace 0x20" and d: "\<not> isSpace 0x2E" by (simp_all add: isSpace_def)
  have tw: "takeWhile isSpace (replicate k c @ [0x2E]) = []" using c by (simp add: k')
  have dw: "dropWhile isSpace (replicate k c @ [0x2E]) = replicate k c @ [0x2E]" using c by (simp add: k')
  have "split_whitespace (filler k c) = [] # split_runs (\<lambda>_. True) isSpace (Some 0x20) [] (replicate k c @ [0x2E])"
    using s by (simp add: split_whitespace_def filler_def tw dw)
  also have "split_runs (\<lambda>_. True) isSpace (Some 0x20) [] (replicate k c @ [0x2E])
           = split_runs (\<lambda>_. True) isSpace (Some c) ([] @ replicate k c) [0x2E]"
    using c k split_runs_replicate [of isSpace c "\<lambda>_. True" "Some 0x20" "[]" k "[0x2E]"] by simp
  also have "\<dots> = [replicate k c @ [0x2E]]" using d by simp
  finally show ?thesis by simp
qed

lemma words_wordy: "length (split_whitespace wordy) = 11"
  by (simp add: wordy_def js_def split_whitespace_def isSpace_def)

lemma plain_filler: "c = 0x78 \<or> c = 0x79 \<Longrightarrow> set (filler k c) \<subseteq> {0x20, 0x2E, 0x78, 0x79}"
  by (auto simp: filler_def)

lemma plain_wordy: "set wordy \<subseteq> {0x20, 0x2E, 0x78, 0x79}"
  by (simp add: wordy_def js_def)

lemma replicate_2: "replicate 2 x = [x, x]"
  by (simp add: numeral_eq_Suc)

lemma replicate_4: "replicate 4 x = [x, x, x, x]"
  by (simp add: numeral_eq_Suc)

lemma replicate_8: "replicate 8 x = [x, x, x, x, x, x, x, x]"
  by (simp add: numeral_eq_Suc)

lemma replicate_9: "replicate 9 x = [x, x, x, x, x, x, x, x, x]"
  by (simp add: numeral_eq_Suc)

lemma long_sentences_list:
  "long_sentences =
     [filler 600 0x78,
      filler 600 0x78,
      filler 600 0x78,
      filler 600 0x78,
      filler 600 0x78,
      filler 600 0x78,
      filler 600 0x78,
      filler 600 0x78,
      filler 600 0x79,
      filler 600 0x79,
      filler 600 0x78,
      filler 600 0x78,
      filler 600 0x78,
      filler 600 0x78,
      filler 600 0x78,
      filler 600 0x78,
      filler 600 0x78,
      filler 600 0x78,
      filler 600 0x78,
      wordy,
      wordy,
      wordy,
      wordy,
      wordy,
      wordy,
      wordy,
      wordy,
      filler 600 0x78,
      filler 600 0x78,
      filler 600 0x78,
      filler 600 0x78]"
  by (simp add: long_sentences_def replicate_2 replicate_4 replicate_8 replicate_9)

lemma upt_31: "[0 ..< 31] = [0, 1, 2, 3, 4, 5, 6, 7, 8, 9, 10, 11, 12, 13, 14, 15, 16, 17, 18, 19, 20,
                             21, 22, 23, 24, 25, 26, 27, 28, 29, 30]"
  by code_simp

lemma score_filler:
  "c = 0x78 \<or> c = 0x79 \<Longrightarrow>
   scoreSentence 31 (filler 600 c) i =
     \<lparr>sentence = filler 600 c,
      score = (if rat_of_nat i < 31 * 0.15 then 3
               else if rat_of_nat i > 31 * 0.85 then 2.5
               else if rat_of_nat i > 31 * 0.4 \<and> rat_of_nat i < 31 * 0.6 then 1
               else 0),
      index = i\<rparr>"
proof -
  assume c: "c = 0x78 \<or> c = 0x79"
  then have "\<not> isSpace c" by (auto simp: isSpace_def)
  then have w: "length (split_whitespace (filler 600 c)) = 2" by (simp add: words_filler)
  show ?thesis
    using scoreSentence_plain [where s = "filler 600 c" and n = 31 and i = i, OF plain_filler [OF c]]
    by (simp add: w)
qed

lemma score_wordy:
  "scoreSentence 31 wordy i =
     \<lparr>sentence = wordy,
      score = (if rat_of_nat i < 31 * 0.15 then 3
               else if rat_of_nat i > 31 * 0.85 then 2.5
               else if rat_of_nat i > 31 * 0.4 \<and> rat_of_nat i < 31 * 0.6 then 1
               else 0) + 1.5,
      index = i\<rparr>"
  using scoreSentence_plain [where s = wordy and n = 31 and i = i, OF plain_wordy]
  by (simp add: words_wordy)

lemma scores_long:
  "scoreSentences long_sentences =
     [\<lparr>sentence = filler 600 0x78, score = 3, index = 0\<rparr>,
      \<lparr>sentence = filler 600 0x78, score = 3, index = 1\<rparr>,
      \<lparr>sentence = filler 600 0x78, score = 3, index = 2\<rparr>,
      \<lparr>sentence = filler 600 0x78, score = 3, index = 3\<rparr>,
      \<lparr>sentence = filler 600 0x78, score = 3, index = 4\<rparr>,
      \<lparr>sentence = filler 600 0x78, score = 0, index = 5\<rparr>,
      \<lparr>sentence = filler 600 0x78, score = 0, index = 6\<rparr>,
      \<lparr>sentence = filler 600 0x78, score = 0, index = 7\<rparr>,
      \<lparr>sentence = filler 600 0x79, score = 0, index = 8\<rparr>,
      \<lparr>sentence = filler 600 0x79, score = 0, index = 9\<rparr>,
      \<lparr>sentence = filler 600 0x78, score = 0, index = 10\<rparr>,
      \<lparr>sentence = filler 600 0x78, score = 0, index = 11\<rparr>,
      \<lparr>sentence = filler 600 0x78, score = 0, index = 12\<rparr>,
      \<lparr>sentence = filler 600 0x78, score = 1, index = 13\<rparr>,
      \<lparr>sentence = filler 600 0x78, score = 1, index = 14\<rparr>,
      \<lparr>sentence = filler 600 0x78, score = 1, index = 15\<rparr>,
      \<lparr>sentence = filler 600 0x78, score = 1, index = 16\<rparr>,
      \<lparr>sentence = filler 600 0x78, score = 1, index = 17\<rparr>,
      \<lparr>sentence = filler 600 0x78, score = 1, index = 18\<rparr>,
      \<lparr>sentence = wordy, score = 3 / 2, index = 19\<rparr>,
      \<lparr>sentence = wordy, score = 3 / 2, index = 20\<rparr>,
      \<lparr>sentence = wordy, score = 3 / 2, index = 21\<rparr>,
      \<lparr>sentence = wordy, score = 3 / 2, index = 22\<rparr>,
      \<lparr>sentence = wordy, score = 3 / 2, index = 23\<rparr>,
      \<lparr>sentence = wordy, score = 3 / 2, index = 24\<rparr>,
      \<lparr>sentence = wordy, score = 3 / 2, index = 25\<rparr>,
      \<lparr>sentence = wordy, score = 3 / 2, index = 26\<rparr>,
      \<lparr>sentence = filler 600 0x78, score = 5 / 2, index = 27\<rparr>,
      \<lparr>sentence = filler 600 0x78, score = 5 / 2, index = 28\<rparr>,
      \<lparr>sentence = filler 600 0x78, score = 5 / 2, index = 29\<rparr>,
      \<lparr>sentence = filler 600 0x78, score = 5 / 2, index = 30\<rparr>]"
  unfolding scoreSentences_def length_long_sentences upt_31
  by (simp add: long_sentences_list score_filler score_wordy)

lemma target_long: "targetChunkSize 3504 = 1168"
proof -
  have "\<lceil>(3504::rat) / 3000\<rceil> = 2" by linarith
  moreover have "\<lfloor>(3504::rat) / 3\<rfloor> = 1168" by linarith
  ultimately show ?thesis by (simp add: targetChunkSize_def)
qed

lemma rf_long: "intelligentReductionFactor 3504 = 3"
proof -
  have "\<lceil>(3504::rat) / 4000\<rceil> = 1" by linarith
  then show ?thesis by (simp add: intelligentReductionFactor_def target_long)
qed

lemma keep_long: "numSentencesToKeep 31 3 = 21"
proof -
  have "\<lceil>(62::rat) / 3\<rceil> = 21" by linarith
  then show ?thesis by (simp add: numSentencesToKeep_def Let_def)
qed

lemma sorted_scores_long:
  "sort_key index (scoreSentences long_sentences) = scoreSentences long_sentences"
  by (rule sort_key_id_if_sorted) (simp add: scores_long)

lemma length_scores_long: "length (scoreSentences long_sentences) = 31"
  by (simp add: scoreSentences_def length_long_sentences)

lemma threshold_long: "calculateImportanceThreshold (scoreSentences long_sentences) 3 = 1"
proof -
  have s: "score (sort_key (\<lambda>a. - score a) (scoreSentences long_sentences) ! 20) = 1"
    by (simp add: scores_long)
  have k: "(21::nat) - 1 = 20" "\<not> (21::nat) \<ge> 31" by simp_all
  show ?thesis
    unfolding calculateImportanceThreshold_def Let_def length_sort length_scores_long keep_long
    by (simp only: k if_False s)
qed

lemma tagged_long:
  "map (\<lambda>item. (item, score item \<ge> 1)) (scoreSentences long_sentences) =
     [(\<lparr>sentence = filler 600 0x78, score = 3, index = 0\<rparr>, True),
      (\<lparr>sentence = filler 600 0x78, score = 3, index = 1\<rparr>, True),
      (\<lparr>sentence = filler 600 0x78, score = 3, index = 2\<rparr>, True),
      (\<lparr>sentence = filler 600 0x78, score = 3, index = 3\<rparr>, True),
      (\<lparr>sentence = filler 600 0x78, score = 3, index = 4\<rparr>, True),
      (\<lparr>sentence = filler 600 0x78, score = 0, index = 5\<rparr>, False),
      (\<lparr>sentence = filler 600 0x78, score = 0, index = 6\<rparr>, False),
      (\<lparr>sentence = filler 600 0x78, score = 0, index = 7\<rparr>, False),
      (\<lparr>sentence = filler 600 0x79, score = 0, index = 8\<rparr>, False),
      (\<lparr>sentence = filler 600 0x79, score = 0, index = 9\<rparr>, False),
      (\<lparr>sentence = filler 600 0x78, score = 0, index = 10\<rparr>, False),
      (\<lparr>sentence = filler 600 0x78, score = 0, index = 11\<rparr>, False),
      (\<lparr>sentence = filler 600 0x78, score = 0, index = 12\<rparr>, False),
      (\<lparr>sentence = filler 600 0x78, score = 1, index = 13\<rparr>, True),
      (\<lparr>sentence = filler 600 0x78, score = 1, index = 14\<rparr>, True),
      (\<lparr>sentence = filler 600 0x78, score = 1, index = 15\<rparr>, True),
      (\<lparr>sentence = filler 600 0x78, score = 1, index = 16\<rparr>, True),
      (\<lparr>sentence = filler 600 0x78, score = 1, index = 17\<rparr>, True),
      (\<lparr>sentence = filler 600 0x78, score = 1, index = 18\<rparr>, True),
      (\<lparr>sentence = wordy, score = 3 / 2, index = 19\<rparr>, True),
      (\<lparr>sentence = wordy, score = 3 / 2, index = 20\<rparr>, True),
      (\<lparr>sentence = wordy, score = 3 / 2, index = 21\<rparr>, True),
      (\<lparr>sentence = wordy, score = 3 / 2, index = 22\<rparr>, True),
      (\<lparr>sentence = wordy, score = 3 / 2, index = 23\<rparr>, True),
      (\<lparr>sentence = wordy, score = 3 / 2, index = 24\<rparr>, True),
      (\<lparr>sentence = wordy, score = 3 / 2, index = 25\<rparr>, True),
      (\<lparr>sentence = wordy, score = 3 / 2, index = 26\<rparr>, True),
      (\<lparr>sentence = filler 600 0x78, score = 5 / 2, index = 27\<rparr>, True),
      (\<lparr>sentence = filler 600 0x78, score = 5 / 2, index = 28\<rparr>, True),
      (\<lparr>sentence = filler 600 0x78, score = 5 / 2, index = 29\<rparr>, True),
      (\<lparr>sentence = filler 600 0x78, score = 5 / 2, index = 30\<rparr>, True)]"
  by (simp add: scores_long)

lemma segments_long:
  "segment_loop (map (\<lambda>item. (item, score item \<ge> 1)) (scoreSentences long_sentences)) 0 [] [] False
   = ([[filler 600 0x78, filler 600 0x78, filler 600 0x78, filler 600 0x78, filler 600 0x78, filler 600 0x78, filler 600 0x78, filler 600 0x78]],
      [filler 600 0x78,
       filler 600 0x78,
       filler 600 0x78,
       filler 600 0x78,
       filler 600 0x78,
       filler 600 0x78,
       filler 600 0x78,
       filler 600 0x78,
       filler 600 0x78,
       wordy,
       wordy,
       wordy,
       wordy,
       wordy,
       wordy,
       wordy,
       wordy,
       filler 600 0x78,
       filler 600 0x78,
       filler 600 0x78,
       filler 600 0x78])"
  unfolding tagged_long
  by (simp add: segment_loop.simps Let_def)

lemma sample_long:
  "intelligent_sample long_sentences 3504 =
     [filler 600 0x78,
      filler 600 0x78,
      filler 600 0x78,
      filler 600 0x78,
      filler 600 0x78,
      filler 600 0x78,
      filler 600 0x78,
      filler 600 0x78,
      filler 600 0x78,
      filler 600 0x78,
      filler 600 0x78,
      filler 600 0x78,
      filler 600 0x78,
      filler 600 0x78,
      filler 600 0x78,
      filler 600 0x78,
      filler 600 0x78,
      wordy,
      wordy,
      wordy,
      wordy,
      wordy,
      wordy,
      wordy,
      wordy,
      filler 600 0x78,
      filler 600 0x78,
      filler 600 0x78,
      filler 600 0x78]"
  by (simp add: intelligent_sample_def extractImportantSegments_def rf_long sorted_scores_long
      threshold_long segments_long Let_def)

lemma set_join: "set (join sep xs) \<subseteq> set sep \<union> \<Union>(set ` set xs)"
  by (induction sep xs rule: join.induct) auto

lemma set_slice: "set (slice xs i j) \<subseteq> set xs"
  unfolding slice_def by (meson set_take_subset set_drop_subset subset_trans)

lemma larger_loop_chars:
  "c \<in> set (larger_loop sentences perChunk i) \<Longrightarrow> set c \<subseteq> set space \<union> \<Union>(set ` set sentences)"
proof (induction sentences perChunk i rule: larger_loop.induct)
  case (1 sentences perChunk i)
  define w where "w = max 5 perChunk"
  define ov where "ov = nat \<lceil>rat_of_nat w * 0.15\<rceil>"
  define e where "e = min (i + w) (length sentences)"
  define chunk where "chunk = join space (slice sentences i e)"
  show ?case
  proof (cases "i < length sentences")
    case False
    then show ?thesis using "1.prems" by (subst (asm) larger_loop.simps) (simp add: Let_def)
  next
    case True
    have unfold: "larger_loop sentences perChunk i =
        (if length (trim chunk) > 0 then [chunk] else [])
        @ (if e \<ge> length sentences then [] else larger_loop sentences perChunk (i + (w - ov)))"
      using True by (subst larger_loop.simps) (simp add: Let_def w_def ov_def e_def chunk_def)
    have ch: "set chunk \<subseteq> set space \<union> \<Union>(set ` set sentences)"
    proof -
      have "set chunk \<subseteq> set space \<union> \<Union>(set ` set (slice sentences i e))"
        unfolding chunk_def by (rule set_join)
      moreover have "set (slice sentences i e) \<subseteq> set sentences" by (rule set_slice)
      ultimately show ?thesis by blast
    qed
    from "1.prems" have "c = chunk \<or> (\<not> e \<ge> length sentences \<and> c \<in> set (larger_loop sentences perChunk (i + (w - ov))))"
      by (auto simp: unfold split: if_splits)
    then show ?thesis
    proof
      assume "c = chunk"
      then show ?thesis using ch by simp
    next
      assume a: "\<not> e \<ge> length sentences \<and> c \<in> set (larger_loop sentences perChunk (i + (w - ov)))"
      then show ?thesis using "1.IH" [OF w_def ov_def True e_def chunk_def] by blast
    qed
  qed
qed

lemma createLargerContextChunks_chars:
  "c \<in> set (createLargerContextChunks sentences targetSize minChunks)
     \<Longrightarrow> set c \<subseteq> set space \<union> \<Union>(set ` set sentences)"
proof (cases "length sentences \<le> 10")
  case True
  assume "c \<in> set (createLargerContextChunks sentences targetSize minChunks)"
  then have "c = join space sentences" using True by (simp add: createLargerContextChunks_def)
  then show ?thesis using set_join by simp
next
  case False
  assume "c \<in> set (createLargerContextChunks sentences targetSize minChunks)"
  then obtain pc where "c \<in> set (larger_loop sentences pc 0)"
    using False by (auto simp: createLargerContextChunks_def Let_def)
  then show ?thesis by (rule larger_loop_chars)
qed

lemma createForcedChunks_chars:
  "c \<in> set (createForcedChunks sentences targetSize)
     \<Longrightarrow> set c \<subseteq> set space \<union> \<Union>(set ` set sentences)"
  using createLargerContextChunks_chars
  by (auto simp: createForcedChunks_def Let_def split: option.splits if_splits)

lemma intelligent_long:
  "intelligent_chunkTranscript long_transcript maxLength
     = Some (createForcedChunks (intelligent_sample long_sentences 3504) 1168)"
  by (simp add: intelligent_chunkTranscript_def split_long length_long_sentences tokens_long
      target_long Let_def)

lemma sample_long_chars: "\<Union>(set ` set (intelligent_sample long_sentences 3504)) \<subseteq> {0x20, 0x2E, 0x78}"
proof -
  have "set (filler 600 0x78) \<subseteq> {0x20, 0x2E, 0x78}" by (auto simp: filler_def)
  moreover have "set wordy \<subseteq> {0x20, 0x2E, 0x78}" by (simp add: wordy_def js_def)
  ultimately show ?thesis by (simp add: sample_long)
qed

text \<open>
  The long transcript splits into 31 sentences and has 3504 estimated tokens, so for
  \<open>maxLength = 100000\<close> the quotient \<open>3504 / 90000\<close> is far below 1.5.  The intelligent
  strategy samples all the same: the sentences 5 to 12 score 0 against a threshold of 1,
  the first three of them are kept as trailing context and the last three as leading
  context, and the sentences 8 and 9 (the ones made of \<open>y\<close>) occur in no chunk.
\<close>

theorem intelligent_samples_counterexample:
  "splitIntoSentences long_transcript = Some long_sentences
   \<and> length long_sentences = 31
   \<and> rat_of_nat (estimateTokens long_transcript) / (of_int 100000 * 0.9) < 1.5
   \<and> filler 600 0x79 \<in> set long_sentences
   \<and> (\<exists>chunks. intelligent_chunkTranscript long_transcript 100000 = Some chunks
          \<and> \<not> (\<exists>c \<in> set chunks. sublist (filler 600 0x79) c))"
proof -
  have r: "rat_of_nat (estimateTokens long_transcript) / (of_int 100000 * 0.9) < 1.5"
    by (simp add: tokens_long)
  have m: "filler 600 0x79 \<in> set long_sentences" by (simp add: set_long_sentences)
  have y: "0x79 \<in> set (filler 600 0x79)" by (simp add: filler_def)
  have none: "\<not> (\<exists>c \<in> set (createForcedChunks (intelligent_sample long_sentences 3504) 1168).
                  sublist (filler 600 0x79) c)"
  proof
    assume "\<exists>c \<in> set (createForcedChunks (intelligent_sample long_sentences 3504) 1168).
              sublist (filler 600 0x79) c"
    then obtain c where c: "c \<in> set (createForcedChunks (intelligent_sample long_sentences 3504) 1168)"
      and sub: "sublist (filler 600 0x79) c" by blast
    have "set c \<subseteq> set space \<union> \<Union>(set ` set (intelligent_sample long_sentences 3504))"
      using c by (rule createForcedChunks_chars)
    then have "set c \<subseteq> {0x20, 0x2E, 0x78}" using sample_long_chars by (auto simp: space_def)
    moreover have "set (filler 600 0x79) \<subseteq> set c" using sub by (rule set_mono_sublist)
    ultimately have "(0x79::nat) \<in> {0x20, 0x2E, 0x78}" using y by blast
    then show False by simp
  qed
  show ?thesis
    using split_long length_long_sentences r m none by (simp add: intelligent_long)
qed

theorem chunkTranscript_no_sampling_witness:
  "uniform_chunkTranscript seven 1000 = Some (createChunksFromSentences seven_sentences 1000)
   \<and> bookend_chunkTranscript seven 1000 = Some (createChunksFromSentences seven_sentences 1000)
   \<and> join space (createChunksFromSentences seven_sentences 1000) = join space seven_sentences
   \<and> intelligent_chunkTranscript seven 1000
       = Some (createForcedChunks seven_sentences (targetChunkSize (estimateTokens seven)))
   \<and> intelligent_chunkTranscript long_transcript 1000
       = Some (createForcedChunks (intelligent_sample long_sentences (estimateTokens long_transcript))
                 (targetChunkSize (estimateTokens long_transcript)))"
proof -
  have l7: "length seven_sentences > 1" by (simp add: seven_sentences_def)
  have ll: "length long_sentences > 1" by (simp add: length_long_sentences)
  have a: "(1000::int) \<noteq> 0 \<and> rat_of_nat (estimateTokens seven) / (of_int 1000 * 0.9) < 1.5"
    by (simp add: tokens_seven)
  have b: "estimateTokens seven \<le> 3000" by (simp add: tokens_seven)
  have c: "estimateTokens long_transcript > 3000" by (simp add: tokens_long)
  show ?thesis
    using chunkTranscript_no_sampling [OF split_seven l7, of 1000]
      chunkTranscript_no_sampling [OF split_long ll, of 1000] a b c
    by simp
qed

end
